theory Spec2Isabelle
  imports Complex_Main "HOL-Library.Word"
begin

section \<open>JavaScript strings\<close>

text \<open>
  A JavaScript string is a sequence of UTF-16 code units. String literals of the source
  are written \<open>js ''...''\<close>: every character of the sources' literals is ASCII, so the
  code unit is the character's code.
\<close>

type_synonym char16 = "16 word"
type_synonym jsstring = "char16 list"

definition js :: "string \<Rightarrow> jsstring" where
  "js s = map of_char s"

text \<open>\<open>s.startsWith(p)\<close>, used to state where a substring occurs.\<close>

fun startsWith :: "jsstring \<Rightarrow> jsstring \<Rightarrow> bool" where
  "startsWith s [] = True"
| "startsWith [] (p # ps) = False"
| "startsWith (c # cs) (p # ps) = (c = p \<and> startsWith cs ps)"

text \<open>\<open>s.indexOf(sep)\<close>: the first position where \<open>sep\<close> occurs, \<open>None\<close> for -1.\<close>

fun indexOf :: "jsstring \<Rightarrow> jsstring \<Rightarrow> nat option" where
  "indexOf [] sep = (if sep = [] then Some 0 else None)"
| "indexOf (c # cs) sep =
     (if startsWith (c # cs) sep then Some 0 else map_option Suc (indexOf cs sep))"

definition includes_str :: "jsstring \<Rightarrow> jsstring \<Rightarrow> bool" where
  "includes_str s sep = (indexOf s sep \<noteq> None)"

lemma startsWith_length: "startsWith s p \<Longrightarrow> length p \<le> length s"
  by (induction s p rule: startsWith.induct) auto

lemma indexOf_Some_le: "indexOf s sep = Some i \<Longrightarrow> i + length sep \<le> length s"
proof (induction s arbitrary: i)
  case Nil
  then show ?case by (simp split: if_splits)
next
  case (Cons c cs)
  show ?case
  proof (cases "startsWith (c # cs) sep")
    case True
    with Cons.prems startsWith_length [OF True] show ?thesis by simp
  next
    case False
    with Cons.prems obtain j where "indexOf cs sep = Some j" and "i = Suc j"
      by auto
    with Cons.IH [of j] show ?thesis by simp
  qed
qed

text \<open>
  \<open>s.split(sep)\<close> for a string separator: the pieces between the successive
  occurrences of \<open>sep\<close>, found from left to right; an empty separator splits into
  code units.
\<close>

function split_str :: "jsstring \<Rightarrow> jsstring \<Rightarrow> jsstring list" where
  "split_str s sep =
     (if sep = [] then map (\<lambda>c. [c]) s
      else (case indexOf s sep of
              None \<Rightarrow> [s]
            | Some i \<Rightarrow> take i s # split_str (drop (i + length sep) s) sep))"
  by pat_completeness auto
termination
proof (relation "measure (\<lambda>(s, sep). length s)")
  show "wf (measure (\<lambda>(s, sep). length s))" by simp
next
  fix s sep :: jsstring and i
  assume "sep \<noteq> []" and "indexOf s sep = Some i"
  from indexOf_Some_le [OF this(2)] this(1)
  show "((drop (i + length sep) s, sep), (s, sep)) \<in> measure (\<lambda>(s, sep). length s)"
    by (cases sep) auto
qed

declare split_str.simps [simp del]

text \<open>
  White space and line terminators of ECMAScript: what \<open>String.prototype.trim\<close> strips
  and what \<open>\s\<close> matches in a regular expression.
\<close>

definition isWhiteSpace :: "char16 \<Rightarrow> bool" where
  "isWhiteSpace c \<longleftrightarrow>
     c = 0x09 \<or> c = 0x0A \<or> c = 0x0B \<or> c = 0x0C \<or> c = 0x0D \<or> c = 0x20 \<or> c = 0xA0 \<or>
     c = 0x1680 \<or> (0x2000 \<le> c \<and> c \<le> 0x200A) \<or> c = 0x2028 \<or> c = 0x2029 \<or>
     c = 0x202F \<or> c = 0x205F \<or> c = 0x3000 \<or> c = 0xFEFF"

definition dropWhileEnd :: "('a \<Rightarrow> bool) \<Rightarrow> 'a list \<Rightarrow> 'a list" where
  "dropWhileEnd P xs = rev (dropWhile P (rev xs))"

definition trim :: "jsstring \<Rightarrow> jsstring" where
  "trim s = dropWhileEnd isWhiteSpace (dropWhile isWhiteSpace s)"

text \<open>\<open>s.substring(a, b)\<close> and \<open>s.substring(a)\<close> for indices \<open>0 \<le> a \<le> b\<close>.\<close>

definition substring :: "jsstring \<Rightarrow> nat \<Rightarrow> nat \<Rightarrow> jsstring" where
  "substring s a b = take (b - a) (drop a s)"

definition substringFrom :: "jsstring \<Rightarrow> nat \<Rightarrow> jsstring" where
  "substringFrom s a = drop a s"

text \<open>The decimal digits of a natural number, as a template literal prints an index.\<close>

function decimal :: "nat \<Rightarrow> jsstring" where
  "decimal n = (if n < 10 then [of_nat (48 + n)] else decimal (n div 10) @ [of_nat (48 + n mod 10)])"
  by pat_completeness auto
termination
  by (relation "measure id") auto

declare decimal.simps [simp del]

section \<open>JSON values and \<open>JSON.parse\<close>\<close>

text \<open>
  The values \<open>JSON.parse\<close> returns. A number is kept as the exact value of its
  literal; the Number it denotes is that value rounded to the nearest double. An
  object is the list of its own properties; \<open>setProp\<close> is an assignment \<open>o[k] = v\<close>,
  which overwrites a property in place and appends a new one. The list keeps the
  properties in the order of the text, where JavaScript enumerates the keys that are
  array indices first, in ascending order; the order is not part of what is stated
  below, where an object is read one property at a time, with \<open>member\<close>.
\<close>

datatype json =
    JNull
  | JBool bool
  | JNumber rat
  | JString jsstring
  | JArray "json list"
  | JObject "(jsstring \<times> json) list"

fun setProp :: "jsstring \<Rightarrow> json \<Rightarrow> (jsstring \<times> json) list \<Rightarrow> (jsstring \<times> json) list" where
  "setProp k v [] = [(k, v)]"
| "setProp k v ((k', v') # ps) = (if k = k' then (k, v) # ps else (k', v') # setProp k v ps)"

datatype token =
    TLBrace | TRBrace | TLBracket | TRBracket | TColon | TComma
  | TString jsstring | TNumber rat | TTrue | TFalse | TNull

definition isJsonWs :: "char16 \<Rightarrow> bool" where
  "isJsonWs c \<longleftrightarrow> c = 0x20 \<or> c = 0x09 \<or> c = 0x0A \<or> c = 0x0D"

definition isDigit :: "char16 \<Rightarrow> bool" where
  "isDigit c \<longleftrightarrow> 0x30 \<le> c \<and> c \<le> 0x39"

definition digitVal :: "char16 \<Rightarrow> nat" where
  "digitVal c = unat c - 48"

definition hexVal :: "char16 \<Rightarrow> nat option" where
  "hexVal c =
     (if 0x30 \<le> c \<and> c \<le> 0x39 then Some (unat c - 48)
      else if 0x41 \<le> c \<and> c \<le> 0x46 then Some (unat c - 55)
      else if 0x61 \<le> c \<and> c \<le> 0x66 then Some (unat c - 87)
      else None)"

text \<open>The character an escape \<open>\c\<close> stands for (\<open>\u\<close> is handled apart).\<close>

definition unescape :: "char16 \<Rightarrow> char16 option" where
  "unescape e =
     (if e = 0x22 then Some 0x22
      else if e = 0x5C then Some 0x5C
      else if e = 0x2F then Some 0x2F
      else if e = 0x62 then Some 0x08
      else if e = 0x66 then Some 0x0C
      else if e = 0x6E then Some 0x0A
      else if e = 0x72 then Some 0x0D
      else if e = 0x74 then Some 0x09
      else None)"

text \<open>
  A string token, read after its opening quote: the characters up to the closing
  quote, with escapes replaced, and the text after the closing quote. Control
  characters below U+0020 and unknown escapes are errors.
\<close>

fun lexString :: "jsstring \<Rightarrow> (jsstring \<times> jsstring) option" where
  "lexString [] = None"
| "lexString (c # cs) =
     (if c = 0x22 then Some ([], cs)
      else if c = 0x5C then
        (case cs of
           [] \<Rightarrow> None
         | e # es \<Rightarrow>
             if e = 0x75 then
               (case es of
                  h1 # h2 # h3 # h4 # r \<Rightarrow>
                    (case (hexVal h1, hexVal h2, hexVal h3, hexVal h4) of
                       (Some a, Some b, Some c', Some d) \<Rightarrow>
                         map_option (apfst ((#) (of_nat (((a * 16 + b) * 16 + c') * 16 + d))))
                           (lexString r)
                     | _ \<Rightarrow> None)
                | _ \<Rightarrow> None)
             else
               (case unescape e of
                  None \<Rightarrow> None
                | Some x \<Rightarrow> map_option (apfst ((#) x)) (lexString es)))
      else if c < 0x20 then None
      else map_option (apfst ((#) c)) (lexString cs))"

definition digitsVal :: "jsstring \<Rightarrow> nat" where
  "digitsVal ds = foldl (\<lambda>a d. 10 * a + digitVal d) 0 ds"

text \<open>
  A number token: \<open>-? (0 | [1-9][0-9]*) (. [0-9]+)? ([eE] [+-]? [0-9]+)?\<close>, with its
  value and the text after it.
\<close>

definition lexInt :: "jsstring \<Rightarrow> (jsstring \<times> jsstring) option" where
  "lexInt s =
     (case s of
        [] \<Rightarrow> None
      | c # cs \<Rightarrow>
          if c = 0x30 then Some ([c], cs)
          else if isDigit c then Some (takeWhile isDigit s, dropWhile isDigit s)
          else None)"

definition lexFrac :: "jsstring \<Rightarrow> (jsstring \<times> jsstring) option" where
  "lexFrac s =
     (case s of
        c # cs \<Rightarrow>
          if c = 0x2E then
            (if takeWhile isDigit cs = [] then None
             else Some (takeWhile isDigit cs, dropWhile isDigit cs))
          else Some ([], s)
      | [] \<Rightarrow> Some ([], s))"

definition lexExp :: "jsstring \<Rightarrow> (int \<times> jsstring) option" where
  "lexExp s =
     (case s of
        c # cs \<Rightarrow>
          if c = 0x65 \<or> c = 0x45 then
            (let (neg, ds) =
               (case cs of
                  [] \<Rightarrow> (False, cs)
                | d # r \<Rightarrow> if d = 0x2D then (True, r) else if d = 0x2B then (False, r) else (False, cs))
             in if takeWhile isDigit ds = [] then None
                else Some ((if neg then - int (digitsVal (takeWhile isDigit ds))
                            else int (digitsVal (takeWhile isDigit ds))),
                           dropWhile isDigit ds))
          else Some (0, s)
      | [] \<Rightarrow> Some (0, s))"

definition pow10 :: "int \<Rightarrow> rat" where
  "pow10 e = (if 0 \<le> e then 10 ^ nat e else 1 / 10 ^ nat (- e))"

definition lexNumber :: "jsstring \<Rightarrow> (rat \<times> jsstring) option" where
  "lexNumber s =
     (let (neg, s1) = (case s of [] \<Rightarrow> (False, s) | c # cs \<Rightarrow> if c = 0x2D then (True, cs) else (False, s))
      in case lexInt s1 of
           None \<Rightarrow> None
         | Some (ip, s2) \<Rightarrow>
             (case lexFrac s2 of
                None \<Rightarrow> None
              | Some (fp, s3) \<Rightarrow>
                  (case lexExp s3 of
                     None \<Rightarrow> None
                   | Some (e, s4) \<Rightarrow>
                       Some ((if neg then - 1 else 1) *
                             (of_nat (digitsVal ip) + of_nat (digitsVal fp) / 10 ^ length fp) * pow10 e,
                             s4))))"

lemma lexString_length: "lexString s = Some (str, rest) \<Longrightarrow> length rest < length s"
proof (induction s arbitrary: str rest rule: length_induct)
  case (1 s)
  then have IH: "\<And>t str' rest'. length t < length s \<Longrightarrow> lexString t = Some (str', rest')
      \<Longrightarrow> length rest' < length t"
    by blast
  from "1.prems" show ?case
    by (cases s) (auto split: if_splits list.splits option.splits dest!: IH [rotated])
qed

lemma lexInt_length: "lexInt s = Some (ds, rest) \<Longrightarrow> length rest < length s"
  by (cases s) (auto simp: lexInt_def length_dropWhile_le le_imp_less_Suc split: if_splits)

lemma lexFrac_length: "lexFrac s = Some (ds, rest) \<Longrightarrow> length rest \<le> length s"
  by (cases s) (auto simp: lexFrac_def length_dropWhile_le le_SucI split: if_splits)

lemma lexExp_length: "lexExp s = Some (e, rest) \<Longrightarrow> length rest \<le> length s"
proof (cases s)
  case Nil
  assume "lexExp s = Some (e, rest)"
  with Nil show ?thesis by (simp add: lexExp_def)
next
  case (Cons c cs)
  assume a: "lexExp s = Some (e, rest)"
  have d: "length (dropWhile isDigit xs) \<le> length xs" for xs :: jsstring
    by (rule length_dropWhile_le)
  show ?thesis
  proof (cases "c = 0x65 \<or> c = 0x45")
    case False
    with a Cons show ?thesis by (simp add: lexExp_def)
  next
    case True
    show ?thesis
    proof (cases cs)
      case Nil
      with a Cons True show ?thesis by (simp add: lexExp_def)
    next
      case (Cons d' r)
      with a \<open>s = c # cs\<close> True d [of r] d [of cs] show ?thesis
        by (auto simp: lexExp_def Let_def split: if_splits)
    qed
  qed
qed

lemma lexNumber_length: "lexNumber s = Some (q, rest) \<Longrightarrow> length rest < length s"
proof -
  assume a: "lexNumber s = Some (q, rest)"
  define s1 where "s1 = (case s of [] \<Rightarrow> s | c # cs \<Rightarrow> if c = 0x2D then cs else s)"
  have s1: "length s1 \<le> length s"
    by (cases s) (auto simp: s1_def)
  from a obtain ip s2 fp s3 e where
    "lexInt s1 = Some (ip, s2)" "lexFrac s2 = Some (fp, s3)" "lexExp s3 = Some (e, rest)"
    by (cases s) (auto simp: lexNumber_def s1_def Let_def split: option.splits if_splits)
  from lexInt_length [OF this(1)] lexFrac_length [OF this(2)] lexExp_length [OF this(3)] s1
  show ?thesis by simp
qed

text \<open>
  The tokens of a JSON text. White space may stand before and after every token.
\<close>

function tokenize :: "jsstring \<Rightarrow> token list option" where
  "tokenize [] = Some []"
| "tokenize (c # cs) =
     (if isJsonWs c then tokenize cs
      else if c = 0x7B then map_option ((#) TLBrace) (tokenize cs)
      else if c = 0x7D then map_option ((#) TRBrace) (tokenize cs)
      else if c = 0x5B then map_option ((#) TLBracket) (tokenize cs)
      else if c = 0x5D then map_option ((#) TRBracket) (tokenize cs)
      else if c = 0x3A then map_option ((#) TColon) (tokenize cs)
      else if c = 0x2C then map_option ((#) TComma) (tokenize cs)
      else if c = 0x22 then
        (case lexString cs of
           None \<Rightarrow> None
         | Some (str, rest) \<Rightarrow> map_option ((#) (TString str)) (tokenize rest))
      else if c = 0x2D \<or> isDigit c then
        (case lexNumber (c # cs) of
           None \<Rightarrow> None
         | Some (q, rest) \<Rightarrow> map_option ((#) (TNumber q)) (tokenize rest))
      else if startsWith (c # cs) (js ''true'') then map_option ((#) TTrue) (tokenize (drop 3 cs))
      else if startsWith (c # cs) (js ''false'') then map_option ((#) TFalse) (tokenize (drop 4 cs))
      else if startsWith (c # cs) (js ''null'') then map_option ((#) TNull) (tokenize (drop 3 cs))
      else None)"
  by pat_completeness auto
termination
  by (relation "measure length")
    (auto dest: lexString_length lexNumber_length simp: less_Suc_eq_le)

text \<open>
  The grammar of JSON values over the tokens. Each function returns what it parsed
  and the tokens left. \<open>parseElements\<close> reads the elements of an array after its
  \<open>[\<close> or after a comma, \<open>parseMembers\<close> the members of an object; \<open>acc\<close> holds what
  was read so far. A key given twice keeps its first place and its last value. The
  comparison of lengths holds of every result (a value is at least one token): it
  makes the recursion well-founded.
\<close>

function parseValue :: "token list \<Rightarrow> (json \<times> token list) option"
  and parseElements :: "json list \<Rightarrow> token list \<Rightarrow> (json \<times> token list) option"
  and parseMembers :: "(jsstring \<times> json) list \<Rightarrow> token list \<Rightarrow> (json \<times> token list) option"
where
  "parseValue [] = None"
| "parseValue (TNull # ts) = Some (JNull, ts)"
| "parseValue (TTrue # ts) = Some (JBool True, ts)"
| "parseValue (TFalse # ts) = Some (JBool False, ts)"
| "parseValue (TNumber q # ts) = Some (JNumber q, ts)"
| "parseValue (TString str # ts) = Some (JString str, ts)"
| "parseValue (TLBracket # ts) =
     (case ts of
        TRBracket # r \<Rightarrow> Some (JArray [], r)
      | _ \<Rightarrow> parseElements [] ts)"
| "parseValue (TLBrace # ts) =
     (case ts of
        TRBrace # r \<Rightarrow> Some (JObject [], r)
      | _ \<Rightarrow> parseMembers [] ts)"
| "parseValue (TRBracket # ts) = None"
| "parseValue (TRBrace # ts) = None"
| "parseValue (TColon # ts) = None"
| "parseValue (TComma # ts) = None"
| "parseElements acc ts =
     (case parseValue ts of
        None \<Rightarrow> None
      | Some (v, r) \<Rightarrow>
          if length r < length ts then
            (case r of
               TComma # r' \<Rightarrow> parseElements (acc @ [v]) r'
             | TRBracket # r' \<Rightarrow> Some (JArray (acc @ [v]), r')
             | _ \<Rightarrow> None)
          else None)"
| "parseMembers acc ts =
     (case ts of
        TString k # TColon # r \<Rightarrow>
          (case parseValue r of
             None \<Rightarrow> None
           | Some (v, r1) \<Rightarrow>
               if length r1 < length r then
                 (case r1 of
                    TComma # r2 \<Rightarrow> parseMembers (setProp k v acc) r2
                  | TRBrace # r2 \<Rightarrow> Some (JObject (setProp k v acc), r2)
                  | _ \<Rightarrow> None)
               else None)
      | _ \<Rightarrow> None)"
  by pat_completeness auto
termination
  by (relation "measure (\<lambda>x. case x of
                   Inl ts \<Rightarrow> 2 * length ts
                 | Inr (Inl (acc, ts)) \<Rightarrow> 2 * length ts + 1
                 | Inr (Inr (acc, ts)) \<Rightarrow> 2 * length ts + 1)") auto

text \<open>
  \<open>JSON.parse(text)\<close>: the value of a text that is exactly one JSON value, \<open>None\<close>
  where \<open>JSON.parse\<close> throws a SyntaxError.
\<close>

definition JSON_parse :: "jsstring \<Rightarrow> json option" where
  "JSON_parse s =
     (case tokenize s of
        None \<Rightarrow> None
      | Some ts \<Rightarrow>
          (case parseValue ts of
             Some (v, []) \<Rightarrow> Some v
           | _ \<Rightarrow> None))"

section \<open>Values at run time\<close>

text \<open>
  A JavaScript value that came from JSON is a \<open>json\<close>; \<open>undefined\<close> is \<open>None\<close> of
  \<open>json option\<close>. A number is falsy when it is zero: the literal's value rounds to
  the double 0 exactly when its magnitude is at most \<open>2 ^ -1075\<close>, half of the
  smallest positive double.
\<close>

definition numberIsZero :: "rat \<Rightarrow> bool" where
  "numberIsZero q \<longleftrightarrow> \<bar>q\<bar> \<le> 1 / 2 ^ 1075"

fun truthy :: "json \<Rightarrow> bool" where
  "truthy JNull = False"
| "truthy (JBool b) = b"
| "truthy (JNumber q) = (\<not> numberIsZero q)"
| "truthy (JString str) = (str \<noteq> [])"
| "truthy (JArray xs) = True"
| "truthy (JObject ps) = True"

definition truthyOpt :: "json option \<Rightarrow> bool" where
  "truthyOpt v = (case v of None \<Rightarrow> False | Some x \<Rightarrow> truthy x)"

text \<open>
  \<open>v.k\<close> on a value other than \<open>null\<close> and \<open>undefined\<close>, for the property names the
  sources read (\<open>finalStaffingPlan\<close>, \<open>tasks\<close>, \<open>taskId\<close>, \<open>lcat\<close>, \<open>hours\<close>,
  \<open>mathRationale\<close>, \<open>basis\<close>): none of them is a property of a string, an array, a
  number or a boolean, nor of a prototype, so only an object's own properties answer.
\<close>

fun member :: "json \<Rightarrow> jsstring \<Rightarrow> json option" where
  "member (JObject ps) k = map_of ps k"
| "member v k = None"

text \<open>\<open>typeof v === 'number'\<close>.\<close>

fun isNumber :: "json option \<Rightarrow> bool" where
  "isNumber (Some (JNumber q)) = True"
| "isNumber v = False"

text \<open>
  The own enumerable properties an object spread \<open>{...v}\<close> copies: those of an
  object, the indices of an array or a string, nothing of any other value.
\<close>

fun ownProps :: "json option \<Rightarrow> (jsstring \<times> json) list" where
  "ownProps (Some (JObject ps)) = ps"
| "ownProps (Some (JArray xs)) = zip (map decimal [0..<length xs]) xs"
| "ownProps (Some (JString str)) = zip (map decimal [0..<length str]) (map (\<lambda>c. JString [c]) str)"
| "ownProps v = []"

section \<open>Errors, the model client and the console\<close>

text \<open>
  What the OpenAI client throws when a call fails: an object with a \<open>code\<close> (absent
  on some failures) and a \<open>message\<close>.
\<close>

record api_error =
  code :: "jsstring option"
  error_message :: jsstring

text \<open>
  Exceptions. The messages of the errors the engine raises itself (\<open>TypeError\<close>,
  \<open>SyntaxError\<close>) depend on the engine and are left out.
\<close>

datatype js_error =
    TypeError
  | SyntaxError
  | Error jsstring
  | Thrown api_error

datatype role = System | User | Assistant

record chat_message =
  m_role :: role
  m_content :: jsstring

record request =
  model :: jsstring
  messages :: "chat_message list"
  temperature :: rat
  max_tokens :: "nat option"

text \<open>
  \<open>openai.chat.completions.create\<close>: the model's answer to a request depends on the
  request and, the model being no function, on how many calls came before. The answer
  is the failure thrown, or \<open>response.choices[0]?.message?.content\<close> (\<open>None\<close> when
  missing or \<open>null\<close>).
\<close>

type_synonym openai_client = "nat \<Rightarrow> request \<Rightarrow> api_error + jsstring option"

datatype log_level = Log | Warn | Err
datatype log_arg = LStr jsstring | LErr js_error
type_synonym log_entry = "log_level \<times> log_arg list"

text \<open>The state outside the functions: the requests sent so far and the console.\<close>

record world =
  sent :: "request list"
  console :: "log_entry list"

definition console_write :: "log_level \<Rightarrow> log_arg list \<Rightarrow> world \<Rightarrow> world" where
  "console_write lvl args w = w\<lparr>console := console w @ [(lvl, args)]\<rparr>"

definition create :: "openai_client \<Rightarrow> request \<Rightarrow> world \<Rightarrow> (api_error + jsstring option) \<times> world" where
  "create openai rq w = (openai (length (sent w)) rq, w\<lparr>sent := sent w @ [rq]\<rparr>)"

section \<open>The chat revision: \<open>getChatResponse\<close>\<close>

record history_entry =
  h_role :: role
  h_content :: "jsstring option"

record chat_response =
  message :: jsstring
  updatedPlan :: "json option"
  error :: "jsstring option"

text \<open>
  The object built from a task for the prompt. A property whose value is \<open>undefined\<close>
  is left out, as \<open>JSON.stringify\<close> prints it. Reading a property of \<open>null\<close> throws.
\<close>

definition trimmedTask :: "json \<Rightarrow> js_error + json" where
  "trimmedTask task =
     (case task of
        JNull \<Rightarrow> Inl TypeError
      | _ \<Rightarrow> Inr (JObject (List.map_filter (\<lambda>k. map_option (Pair k) (member task k))
                 [js ''taskId'', js ''lcat'', js ''hours'', js ''mathRationale'', js ''basis''])))"

fun mapTasks :: "json list \<Rightarrow> js_error + json list" where
  "mapTasks [] = Inr []"
| "mapTasks (task # rest) =
     (case trimmedTask task of
        Inl e \<Rightarrow> Inl e
      | Inr t \<Rightarrow> (case mapTasks rest of Inl e \<Rightarrow> Inl e | Inr ts \<Rightarrow> Inr (t # ts)))"

text \<open>\<open>planData?.finalStaffingPlan?.tasks\<close>\<close>

definition planTasks :: "json option \<Rightarrow> json option" where
  "planTasks planData =
     (case planData of
        None \<Rightarrow> None
      | Some JNull \<Rightarrow> None
      | Some p \<Rightarrow>
          (case member p (js ''finalStaffingPlan'') of
             None \<Rightarrow> None
           | Some JNull \<Rightarrow> None
           | Some f \<Rightarrow> member f (js ''tasks'')))"

text \<open>
  \<open>trimmedPlanData\<close>: \<open>null\<close> (here \<open>None\<close>) when the plan has no tasks; \<open>.map\<close> on
  tasks that are no array throws a TypeError.
\<close>

definition trimmedPlanData :: "json option \<Rightarrow> js_error + json option" where
  "trimmedPlanData planData =
     (if truthyOpt (planTasks planData) then
        (case planTasks planData of
           Some (JArray tasks) \<Rightarrow>
             (case mapTasks tasks of
                Inl e \<Rightarrow> Inl e
              | Inr ts \<Rightarrow>
                  Inr (Some (JObject [(js ''finalStaffingPlan'', JObject [(js ''tasks'', JArray ts)])])))
         | _ \<Rightarrow> Inl TypeError)
      else Inr None)"

text \<open>
  \<open>systemMessage\<close>. \<open>stringify\<close> stands for \<open>JSON.stringify(_, null, 2)\<close>; \<open>rfpText\<close>
  is \<open>None\<close> when the caller passed \<open>undefined\<close> or \<open>null\<close>.
\<close>

definition systemMessage :: "(json \<Rightarrow> jsstring) \<Rightarrow> jsstring option \<Rightarrow> json option \<Rightarrow> jsstring" where
  \<open>systemMessage stringify rfpText trimmed =
     js (
        ''You are an AI assistant helping with staffing plans.\<newline>'' @
        ''\<newline>'' @
        ''When a user requests changes to the staffing plan, follow these steps:\<newline>'' @
        ''1. Parse the user's request carefully\<newline>'' @
        ''2. Identify which tasks need modification\<newline>'' @
        ''3. Update the values while maintaining data consistency\<newline>'' @
        ''\<newline>'' @
        ''Your response MUST be in this exact format when making changes:\<newline>'' @
        ''PLAN_UPDATE:\<newline>'' @
        ''{\<newline>'' @
        ''  "tasks": [\<newline>'' @
        ''    {\<newline>'' @
        ''      "taskId": "string",\<newline>'' @
        ''      "lcat": "string",\<newline>'' @
        ''      "hours": number,\<newline>'' @
        ''      "mathRationale": "string",\<newline>'' @
        ''      "basis": "string"\<newline>'' @
        ''    }\<newline>'' @
        ''  ]\<newline>'' @
        ''}\<newline>'' @
        ''\<newline>'' @
        ''[Your explanation of the changes made]\<newline>'' @
        ''\<newline>'' @
        ''For all tasks in the plan that are not being modified, you must include them EXACTLY as they are in the current plan. DO NOT CHANGE THEM AT ALL!\<newline>'' @
        ''\<newline>'' @
        ''Context:\<newline>'')
     @ (case rfpText of
          None \<Rightarrow> []
        | Some t \<Rightarrow> if t = [] then [] else js ''1. RFP Text: '' @ substring t 0 1000 @ js ''...'')
     @ js ''\<newline>''
     @ (case trimmed of
          None \<Rightarrow> []
        | Some t \<Rightarrow> js ''2. Current Staffing Plan: '' @ stringify t)\<close>

text \<open>\<open>xs.slice(-n)\<close>: the last \<open>n\<close> elements.\<close>

definition slice_last :: "nat \<Rightarrow> 'a list \<Rightarrow> 'a list" where
  "slice_last n xs = drop (length xs - n) xs"

text \<open>\<open>v || ""\<close> for a string that may be \<open>undefined\<close> or \<open>null\<close>.\<close>

definition orEmpty :: "jsstring option \<Rightarrow> jsstring" where
  "orEmpty v = (case v of None \<Rightarrow> [] | Some str \<Rightarrow> str)"

definition buildMessages ::
  "jsstring \<Rightarrow> history_entry list \<Rightarrow> jsstring option \<Rightarrow> chat_message list" where
  "buildMessages sysMsg history msg =
     filter (\<lambda>m. trim (m_content m) \<noteq> [])
       ([\<lparr>m_role = System, m_content = sysMsg\<rparr>]
        @ map (\<lambda>h. \<lparr>m_role = h_role h, m_content = orEmpty (h_content h)\<rparr>) (slice_last 5 history)
        @ [\<lparr>m_role = User, m_content = orEmpty msg\<rparr>])"

text \<open>
  The loop over \<open>updatePart\<close> that counts braces: \<open>i\<close> is the index of the head of
  the text left, the result is \<open>jsonEndIndex\<close> (0 when the loop ends without a break).
\<close>

fun findJsonEnd :: "jsstring \<Rightarrow> nat \<Rightarrow> int \<Rightarrow> nat" where
  "findJsonEnd [] i bracketCount = 0"
| "findJsonEnd (c # cs) i bracketCount =
     (let bracketCount = (if c = 0x7B then bracketCount + 1 else bracketCount)
      in if c = 0x7D then
           (if bracketCount - 1 = 0 then i + 1
            else findJsonEnd cs (i + 1) (bracketCount - 1))
         else findJsonEnd cs (i + 1) bracketCount)"

definition PLAN_UPDATE :: jsstring where
  "PLAN_UPDATE = js ''PLAN_UPDATE:''"

text \<open>
  The extraction: \<open>jsonStr\<close> and \<open>explanation\<close>. Element 1 of the split is there
  whenever the marker occurs; without it \<open>.trim()\<close> of \<open>undefined\<close> would throw.
\<close>

definition extractUpdate :: "jsstring \<Rightarrow> js_error + (jsstring \<times> jsstring)" where
  "extractUpdate content =
     (let parts = split_str content PLAN_UPDATE
      in if length parts \<le> 1 then Inl TypeError
         else
           (let updatePart = trim (parts ! 1);
                jsonEndIndex = findJsonEnd updatePart 0 0;
                jsonStr = substring updatePart 0 jsonEndIndex;
                explanation = trim (substringFrom updatePart jsonEndIndex)
            in Inr (jsonStr, explanation)))"

text \<open>The \<open>forEach\<close> over the tasks: the first task that fails throws.\<close>

fun validateTasks :: "nat \<Rightarrow> json list \<Rightarrow> js_error option" where
  "validateTasks index [] = None"
| "validateTasks index (task # rest) =
     (case task of
        JNull \<Rightarrow> Some TypeError
      | _ \<Rightarrow>
          if \<not> truthyOpt (member task (js ''taskId'')) \<or> \<not> truthyOpt (member task (js ''lcat''))
             \<or> \<not> isNumber (member task (js ''hours''))
          then Some (Error (js ''Invalid task format at index '' @ decimal index))
          else validateTasks (Suc index) rest)"

definition validateUpdate :: "json \<Rightarrow> js_error + json list" where
  "validateUpdate updateData =
     (case updateData of
        JNull \<Rightarrow> Inl TypeError
      | _ \<Rightarrow>
          (case member updateData (js ''tasks'') of
             Some (JArray tasks) \<Rightarrow>
               (case validateTasks 0 tasks of
                  Some e \<Rightarrow> Inl e
                | None \<Rightarrow> Inr tasks)
           | _ \<Rightarrow> Inl (Error (js ''Invalid update format - missing tasks array''))))"

text \<open>The body of the inner \<open>try\<close>: the plan update of a reply that has the marker.\<close>

definition planUpdate :: "jsstring \<Rightarrow> json option \<Rightarrow> world \<Rightarrow> (js_error + chat_response) \<times> world" where
  "planUpdate content planData w =
     (case extractUpdate content of
        Inl e \<Rightarrow> (Inl e, w)
      | Inr (jsonStr, explanation) \<Rightarrow>
          (let w1 = console_write Log [LStr (js ''Extracted JSON:''), LStr jsonStr] w
           in case JSON_parse jsonStr of
                None \<Rightarrow> (Inl SyntaxError, w1)
              | Some updateData \<Rightarrow>
                  (case validateUpdate updateData of
                     Inl e \<Rightarrow> (Inl e, w1)
                   | Inr tasks \<Rightarrow>
                       (Inr \<lparr>message = (if explanation = [] then js ''Plan updated successfully''
                                        else explanation),
                             updatedPlan =
                               Some (JObject (setProp (js ''finalStaffingPlan'')
                                                (JObject [(js ''tasks'', JArray tasks)])
                                                (ownProps planData))),
                             error = None\<rparr>,
                        w1))))"

definition clarification :: jsstring where
  "clarification = js (''I understood your request to update the plan, but I need you to be more specific about '' @
     ''what changes you want to make. Please specify which task(s) you want to modify and what values should be changed.'')"

text \<open>What the outer \<open>try\<close> does with the content of the model's reply.\<close>

definition respond :: "jsstring option \<Rightarrow> json option \<Rightarrow> world \<Rightarrow> chat_response \<times> world" where
  "respond content planData w =
     (case content of
        None \<Rightarrow> (\<lparr>message = js ''I'm sorry, I couldn't generate a response.'',
                   updatedPlan = None, error = None\<rparr>, w)
      | Some c \<Rightarrow>
          if c = [] then
            (\<lparr>message = js ''I'm sorry, I couldn't generate a response.'',
              updatedPlan = None, error = None\<rparr>, w)
          else if includes_str c PLAN_UPDATE then
            (case planUpdate c planData w of
               (Inr r, w1) \<Rightarrow> (r, w1)
             | (Inl e, w1) \<Rightarrow>
                 (\<lparr>message = clarification, updatedPlan = None,
                   error = Some (js ''Failed to parse plan update'')\<rparr>,
                  console_write Err [LStr (js ''Raw content:''), LStr c]
                    (console_write Err [LStr (js ''Failed to parse plan update:''), LErr e] w1)))
          else (\<lparr>message = c, updatedPlan = None, error = None\<rparr>, w))"

text \<open>The request of the one model call.\<close>

definition chatRequest ::
  "(json \<Rightarrow> jsstring) \<Rightarrow> jsstring option \<Rightarrow> jsstring option \<Rightarrow> history_entry list \<Rightarrow>
   json option \<Rightarrow> request" where
  "chatRequest stringify msg rfpText history trimmed =
     \<lparr>model = js ''gpt-4'',
      messages = buildMessages (systemMessage stringify rfpText trimmed) history msg,
      temperature = 2 / 10,
      max_tokens = Some 4000\<rparr>"

definition getChatResponse ::
  "openai_client \<Rightarrow> (json \<Rightarrow> jsstring) \<Rightarrow> jsstring option \<Rightarrow> json option \<Rightarrow> jsstring option \<Rightarrow>
   history_entry list \<Rightarrow> world \<Rightarrow> (js_error + chat_response) \<times> world" where
  "getChatResponse openai stringify msg planData rfpText history w =
     (case trimmedPlanData planData of
        Inl e \<Rightarrow> (Inl e, w)
      | Inr trimmed \<Rightarrow>
          (case create openai (chatRequest stringify msg rfpText history trimmed) w of
             (Inr content, w1) \<Rightarrow>
               (case respond content planData w1 of (r, w2) \<Rightarrow> (Inr r, w2))
           | (Inl err, w1) \<Rightarrow>
               (let w2 = console_write Err [LStr (js ''Error getting chat response:''), LErr (Thrown err)] w1
                   in if code err = Some (js ''context_length_exceeded'') then
                        (Inr \<lparr>message = js (''I apologize, but the plan and conversation history are too long for me to process. '' @
                                            ''Could you try breaking down your request into smaller parts?''),
                              updatedPlan = None, error = Some (js ''Message too long'')\<rparr>, w2)
                      else (Inl (Error (js ''Failed to get AI response: '' @ error_message err)), w2))))"

section \<open>The JSON recovery: \<open>parseJsonWithRetry\<close>\<close>

text \<open>
  How a regular expression with the flag \<open>i\<close> (and without \<open>u\<close>) compares a
  character of the text with an ASCII character of the pattern: both are put in upper
  case, and a character outside ASCII never becomes an ASCII one.
\<close>

definition canonicalize :: "char16 \<Rightarrow> char16" where
  "canonicalize c = (if 0x61 \<le> c \<and> c \<le> 0x7A then c - 0x20 else c)"

fun startsWithIgnoreCase :: "jsstring \<Rightarrow> jsstring \<Rightarrow> bool" where
  "startsWithIgnoreCase s [] = True"
| "startsWithIgnoreCase [] (p # ps) = False"
| "startsWithIgnoreCase (c # cs) (p # ps) =
     (canonicalize c = canonicalize p \<and> startsWithIgnoreCase cs ps)"

lemma startsWithIgnoreCase_length: "startsWithIgnoreCase s p \<Longrightarrow> length p \<le> length s"
  by (induction s p rule: startsWithIgnoreCase.induct) auto

text \<open>
  \<open>s.replace(/pat/g, "")\<close> for a pattern that is a fixed text: the matches are found
  from left to right and removed; \<open>matches\<close> tells whether the pattern matches at the
  head of the text.
\<close>

function removeAll :: "(jsstring \<Rightarrow> jsstring \<Rightarrow> bool) \<Rightarrow> jsstring \<Rightarrow> jsstring \<Rightarrow> jsstring" where
  "removeAll matches pat [] = []"
| "removeAll matches pat (c # cs) =
     (if pat \<noteq> [] \<and> matches (c # cs) pat
      then removeAll matches pat (drop (length pat) (c # cs))
      else c # removeAll matches pat cs)"
  by pat_completeness auto
termination
proof (relation "measure (\<lambda>(matches, pat, s). length s)")
  show "wf (measure (\<lambda>(matches, pat, s). length s))" by simp
next
  fix matches pat and c :: char16 and cs :: jsstring
  assume "pat \<noteq> [] \<and> matches (c # cs) pat"
  then have "0 < length pat" by simp
  then show "((matches, pat, drop (length pat) (c # cs)), (matches, pat, c # cs))
               \<in> measure (\<lambda>(matches, pat, s). length s)"
    by simp
next
  fix matches pat and c :: char16 and cs :: jsstring
  show "((matches, pat, cs), (matches, pat, c # cs)) \<in> measure (\<lambda>(matches, pat, s). length s)"
    by simp
qed

text \<open>The class \<open>[()\s]\<close>.\<close>

definition isParenOrSpace :: "char16 \<Rightarrow> bool" where
  "isParenOrSpace c \<longleftrightarrow> c = 0x28 \<or> c = 0x29 \<or> isWhiteSpace c"

definition sanitizePotentialFormatting :: "jsstring \<Rightarrow> jsstring" where
  "sanitizePotentialFormatting raw =
     (let cleaned = removeAll startsWith (js ''```'')
                      (removeAll startsWithIgnoreCase (js ''```json'') raw);
          cleaned = dropWhileEnd isParenOrSpace (dropWhile isParenOrSpace cleaned)
      in trim cleaned)"

definition PARSER_MODEL :: jsstring where
  "PARSER_MODEL = js ''gpt-4''"

text \<open>
  The system message of a repair call. \<open>errText\<close> is \<open>String(err)\<close>, the engine's text
  for the SyntaxError that \<open>JSON.parse\<close> threw on \<open>raw\<close>.
\<close>

definition repairPrompt :: "jsstring \<Rightarrow> jsstring \<Rightarrow> jsstring" where
  \<open>repairPrompt errText raw =
     js (''\<newline>'' @
         ''Your last output had invalid JSON. Here is the error:\<newline>'')
     @ errText
     @ js (''\<newline>'' @
         ''\<newline>'' @
         ''Your invalid JSON was:\<newline>'')
     @ raw
     @ js (''\<newline>'' @
         ''\<newline>'' @
         ''Please respond ONLY with valid JSON, no code fences, no commentary. Output must match the schema previously described.'')\<close>

text \<open>The request of a repair call: the original messages and the repair prompt.\<close>

definition repairRequest :: "(jsstring \<Rightarrow> jsstring) \<Rightarrow> chat_message list \<Rightarrow> jsstring \<Rightarrow> request" where
  "repairRequest errString originalMessages raw =
     \<lparr>model = PARSER_MODEL,
      messages = originalMessages
        @ [\<lparr>m_role = System, m_content = repairPrompt (errString raw) raw\<rparr>],
      temperature = 0,
      max_tokens = None\<rparr>"

text \<open>
  The \<open>while\<close> loop of \<open>parseJsonWithRetry\<close>, from the state \<open>attempt\<close>, \<open>raw\<close>.
  \<open>errString raw\<close> stands for \<open>String(err)\<close> of the error thrown on \<open>raw\<close>. A failure of
  the repair call itself is not caught.
\<close>

function parseLoop ::
  "openai_client \<Rightarrow> (jsstring \<Rightarrow> jsstring) \<Rightarrow> chat_message list \<Rightarrow> int \<Rightarrow> nat \<Rightarrow> jsstring \<Rightarrow> world \<Rightarrow>
   (js_error + json) \<times> world" where
  \<open>parseLoop openai errString originalMessages maxRetries attempt raw w =
     (if int attempt \<le> maxRetries then
        (case JSON_parse raw of
           Some v \<Rightarrow> (Inr v, w)
         | None \<Rightarrow>
             if int (attempt + 1) > maxRetries then
               (Inl (Error (js ''Failed to parse JSON (max retries exceeded)'')),
                console_write Err [LStr (js ''Last raw content was:\<newline>''), LStr raw]
                  (console_write Err [LStr (js ''Error parsing JSON, max retries exceeded:''),
                                      LErr SyntaxError] w))
             else
               (case create openai (repairRequest errString originalMessages raw)
                       (console_write Warn
                          [LStr (js ''Parse attempt #'' @ decimal (attempt + 1)
                                 @ js '' failed. Attempting a "repair" prompt...'')] w) of
                  (Inl err, w1) \<Rightarrow> (Inl (Thrown err), w1)
                | (Inr content, w1) \<Rightarrow>
                    parseLoop openai errString originalMessages maxRetries (attempt + 1)
                      (sanitizePotentialFormatting (orEmpty content))
                      (console_write Log
                         [LStr (js ''--- REPAIR ATTEMPT #'' @ decimal (attempt + 1)
                                @ js '' RAW OUTPUT (GPT-4) ---\<newline>''),
                          LStr (sanitizePotentialFormatting (orEmpty content))] w1)))
      else (Inl (Error (js ''Failed to parse JSON unexpectedly.'')), w))\<close>
  by pat_completeness auto
termination
  by (relation "measure (\<lambda>(openai, errString, originalMessages, maxRetries, attempt, raw, w).
                  nat (maxRetries - int attempt))") auto

declare parseLoop.simps [simp del]

definition parseJsonWithRetry ::
  "openai_client \<Rightarrow> (jsstring \<Rightarrow> jsstring) \<Rightarrow> chat_message list \<Rightarrow> jsstring \<Rightarrow> int \<Rightarrow> world \<Rightarrow>
   (js_error + json) \<times> world" where
  "parseJsonWithRetry openai errString originalMessages content maxRetries w =
     parseLoop openai errString originalMessages maxRetries 0
       (sanitizePotentialFormatting content) w"

section \<open>Notions the properties are stated with\<close>

text \<open>
  The depth of braces of a text: the number of \<open>{\<close> minus the number of \<open>}\<close>. The
  text \<open>closes at\<close> \<open>k\<close> when its \<open>k\<close>-th character is a \<open>}\<close> and the depth of the first
  \<open>k\<close> characters, counted from \<open>n\<close>, is zero.
\<close>

definition braceDepth :: "jsstring \<Rightarrow> int" where
  "braceDepth s = int (length (filter (\<lambda>c. c = 0x7B) s)) - int (length (filter (\<lambda>c. c = 0x7D) s))"

definition closesAt :: "int \<Rightarrow> jsstring \<Rightarrow> nat \<Rightarrow> bool" where
  "closesAt n s k \<longleftrightarrow> 0 < k \<and> k \<le> length s \<and> s ! (k - 1) = 0x7D \<and> n + braceDepth (take k s) = 0"

text \<open>
  The \<open>tasks\<close> array of a parsed update, if it has one, and the test the validation
  applies to each of its lines: \<open>taskId\<close> and \<open>lcat\<close> are truthy (present, and not \<open>null\<close>,
  the empty string, \<open>false\<close> or zero) and \<open>hours\<close> is a number.
\<close>

definition tasksArray :: "json \<Rightarrow> json list option" where
  "tasksArray updateData =
     (case member updateData (js ''tasks'') of Some (JArray tasks) \<Rightarrow> Some tasks | _ \<Rightarrow> None)"

definition lineAccepted :: "json \<Rightarrow> bool" where
  "lineAccepted task \<longleftrightarrow>
     truthyOpt (member task (js ''taskId'')) \<and> truthyOpt (member task (js ''lcat''))
     \<and> isNumber (member task (js ''hours''))"

text \<open>The characters a JSON token can begin with, and those it can end with.\<close>

definition isTokenEnd :: "char16 \<Rightarrow> bool" where
  "isTokenEnd c \<longleftrightarrow> c = 0x7B \<or> c = 0x7D \<or> c = 0x5B \<or> c = 0x5D \<or> c = 0x3A \<or> c = 0x2C
     \<or> c = 0x22 \<or> isDigit c \<or> c = 0x65 \<or> c = 0x6C"

definition isTokenStart :: "char16 \<Rightarrow> bool" where
  "isTokenStart c \<longleftrightarrow> c = 0x7B \<or> c = 0x7D \<or> c = 0x5B \<or> c = 0x5D \<or> c = 0x3A \<or> c = 0x2C
     \<or> c = 0x22 \<or> c = 0x2D \<or> isDigit c \<or> c = 0x74 \<or> c = 0x66 \<or> c = 0x6E"

text \<open>
  A wrapping: a text made of code fences (three backticks, alone or followed by \<open>json\<close>
  in any case), parentheses and white space.
\<close>

inductive wrapping :: "jsstring \<Rightarrow> bool" where
  wrapping_Nil: "wrapping []"
| wrapping_char: "isParenOrSpace c \<Longrightarrow> wrapping s \<Longrightarrow> wrapping (c # s)"
| wrapping_fence: "wrapping s \<Longrightarrow> wrapping (js ''```'' @ s)"
| wrapping_fence_json: "map canonicalize t = js ''JSON'' \<Longrightarrow> wrapping s \<Longrightarrow> wrapping (js ''```'' @ t @ s)"

text \<open>
  Two notions for the proofs. A text has a good head when it does not begin with \<open>j\<close>
  or \<open>J\<close>, nor with fewer than three backticks; a clean prefix turns, when the triple
  backticks are removed, into parentheses and white space, whatever follows it.
\<close>

definition headOK :: "jsstring \<Rightarrow> bool" where
  "headOK y \<longleftrightarrow> y = [] \<or> (canonicalize (hd y) \<noteq> 0x4A \<and> (hd y = 0x60 \<longrightarrow> startsWith y (js ''```'')))"

definition cleanPrefix :: "jsstring \<Rightarrow> bool" where
  "cleanPrefix p \<longleftrightarrow>
     (\<exists>q. list_all isParenOrSpace q \<and> (\<forall>z. removeAll startsWith (js ''```'') (p @ z) = q @ removeAll startsWith (js ''```'') z))"


section \<open>Scripted clients for concrete runs\<close>

text \<open>
  A client that gives the same answer to every call, a \<open>JSON.stringify\<close> that is never
  asked (the example runs have no plan), and the state before any call.
\<close>

definition emptyWorld :: world where
  "emptyWorld = \<lparr>sent = [], console = []\<rparr>"

definition fixedClient :: "api_error + jsstring option \<Rightarrow> openai_client" where
  "fixedClient answer n rq = answer"

definition noStringify :: "json \<Rightarrow> jsstring" where
  "noStringify v = []"

text \<open>An engine whose text for every parse error is the same.\<close>

definition plainErrString :: "jsstring \<Rightarrow> jsstring" where
  "plainErrString raw = js ''SyntaxError''"

text \<open>A fenced JSON text, and a JSON text with a fence inside a string.\<close>

definition fencedReply :: jsstring where
  \<open>fencedReply = js ''```json\<newline>{"tasks":[]}\<newline>```''\<close>

definition backtickJson :: jsstring where
  \<open>backtickJson = js ''{"basis":"```"}''\<close>

text \<open>A history with blank entries, replies of the model, and a plan.\<close>

definition blankHistory :: "history_entry list" where
  "blankHistory = [\<lparr>h_role = Assistant, h_content = Some (js '' '')\<rparr>, \<lparr>h_role = User, h_content = None\<rparr>]"



definition replyNegativeHours :: jsstring where
  \<open>replyNegativeHours = js ''PLAN_UPDATE:{"tasks":[{"taskId":"T1","lcat":"PM","hours":-5}]}''\<close>

definition lineNegativeHours :: json where
  "lineNegativeHours =
     JObject [(js ''taskId'', JString (js ''T1'')), (js ''lcat'', JString (js ''PM'')),
              (js ''hours'', JNumber (- 5))]"

definition oldPlan :: json where
  "oldPlan =
     JObject [(js ''id'', JString (js ''plan-1'')),
              (js ''finalStaffingPlan'',
               JObject [(js ''tasks'',
                 JArray [JObject [(js ''taskId'', JString (js ''T0'')), (js ''lcat'', JString (js ''SE'')),
                                  (js ''hours'', JNumber 100)]])]),
              (js ''rfpText'', JString (js ''RFP'')),
              (js ''step1Tasks'', JArray [])]"




section \<open>Properties of \<open>getChatResponse\<close>\<close>

lemma trimmedPlanData_None: "trimmedPlanData None = Inr None"
  by (simp add: trimmedPlanData_def planTasks_def truthyOpt_def)

text \<open>
  C9. When the completion has no content (the content is missing or is the empty
  string), \<open>getChatResponse\<close> returns the fixed apology, with neither \<open>updatedPlan\<close> nor
  \<open>error\<close>; it does not throw and extracts nothing.
\<close>

theorem getChatResponse_no_content:
  assumes "trimmedPlanData planData = Inr trimmed"
    and "openai (length (sent w)) (chatRequest stringify msg rfpText history trimmed) = Inr content"
    and "content = None \<or> content = Some []"
  shows "fst (getChatResponse openai stringify msg planData rfpText history w) =
           Inr \<lparr>message = js ''I'm sorry, I couldn't generate a response.'',
                updatedPlan = None, error = None\<rparr>"
  using assms by (auto simp: getChatResponse_def create_def respond_def)

theorem getChatResponse_no_content_witness:
  "trimmedPlanData None = Inr None
   \<and> fixedClient (Inr (Some [])) (length (sent emptyWorld))
        (chatRequest noStringify (Some (js ''hi'')) None [] None) = Inr (Some [])
   \<and> fst (getChatResponse (fixedClient (Inr (Some []))) noStringify (Some (js ''hi'')) None None []
            emptyWorld) =
       Inr \<lparr>message = js ''I'm sorry, I couldn't generate a response.'',
            updatedPlan = None, error = None\<rparr>"
  using getChatResponse_no_content [of None None "fixedClient (Inr (Some []))" emptyWorld noStringify
      "Some (js ''hi'')" None "[]" "Some []"]
  by (simp add: trimmedPlanData_None fixedClient_def)

subsection \<open>The extraction by brace balance\<close>

lemma closesAt_0 [simp]: "\<not> closesAt n s 0"
  by (simp add: closesAt_def)

lemma closesAt_Nil [simp]: "\<not> closesAt n [] k"
  by (auto simp: closesAt_def)




lemma split_str_nonempty: "sep \<noteq> [] \<Longrightarrow> split_str s sep \<noteq> []"
  by (subst split_str.simps) (simp split: option.splits)

lemma PLAN_UPDATE_nonempty: "PLAN_UPDATE \<noteq> []"
  by (simp add: PLAN_UPDATE_def js_def)








subsection \<open>Replies without the marker, and failures of the call\<close>

text \<open>
  C6 (as amended). For every reply that does not contain the marker \<open>PLAN_UPDATE:\<close>,
  \<open>getChatResponse\<close> sets neither \<open>updatedPlan\<close> nor \<open>error\<close>, and when the reply is not
  the empty string its message is the full reply; for the empty reply the message is
  the fixed apology.
\<close>

theorem getChatResponse_no_marker:
  assumes "trimmedPlanData planData = Inr trimmed"
    and "openai (length (sent w)) (chatRequest stringify msg rfpText history trimmed) = Inr (Some content)"
    and "\<not> includes_str content PLAN_UPDATE"
  shows "fst (getChatResponse openai stringify msg planData rfpText history w) =
           Inr \<lparr>message = (if content = [] then js ''I'm sorry, I couldn't generate a response.''
                            else content),
                updatedPlan = None, error = None\<rparr>"
  using assms by (auto simp: getChatResponse_def create_def respond_def)

theorem getChatResponse_no_marker_witness:
  "trimmedPlanData None = Inr None
   \<and> fixedClient (Inr (Some (js ''PM''))) (length (sent emptyWorld))
        (chatRequest noStringify (Some (js ''hi'')) None [] None) = Inr (Some (js ''PM''))
   \<and> \<not> includes_str (js ''PM'') PLAN_UPDATE
   \<and> fst (getChatResponse (fixedClient (Inr (Some (js ''PM'')))) noStringify (Some (js ''hi'')) None None []
            emptyWorld) =
       Inr \<lparr>message = js ''PM'', updatedPlan = None, error = None\<rparr>"
  using getChatResponse_no_marker [of None None "fixedClient (Inr (Some (js ''PM'')))" emptyWorld noStringify
      "Some (js ''hi'')" None "[]" "js ''PM''"]
  by (simp add: trimmedPlanData_None fixedClient_def includes_str_def PLAN_UPDATE_def js_def)

text \<open>
  The empty reply does not contain the marker, and the message returned for it is not
  the reply.
\<close>

theorem getChatResponse_empty_reply_counterexample:
  "\<not> includes_str [] PLAN_UPDATE
   \<and> fst (getChatResponse (fixedClient (Inr (Some []))) noStringify (Some (js ''hi'')) None None []
            emptyWorld) =
       Inr \<lparr>message = js ''I'm sorry, I couldn't generate a response.'', updatedPlan = None, error = None\<rparr>
   \<and> js ''I'm sorry, I couldn't generate a response.'' \<noteq> []"
  by (simp add: getChatResponse_def trimmedPlanData_None create_def fixedClient_def respond_def
      includes_str_def PLAN_UPDATE_def js_def)

text \<open>
  C7. When the model call fails with the code \<open>context_length_exceeded\<close>,
  \<open>getChatResponse\<close> returns the message that asks for a shorter request, with the error
  marker \<open>Message too long\<close>, and does not throw; on every other failure it throws an
  \<open>Error\<close> made of the failure's message.
\<close>

theorem getChatResponse_call_failure:
  assumes "trimmedPlanData planData = Inr trimmed"
    and "openai (length (sent w)) (chatRequest stringify msg rfpText history trimmed) = Inl err"
  shows "fst (getChatResponse openai stringify msg planData rfpText history w) =
           (if code err = Some (js ''context_length_exceeded'') then
              Inr \<lparr>message = js (''I apologize, but the plan and conversation history are too long for me to process. '' @
                                  ''Could you try breaking down your request into smaller parts?''),
                   updatedPlan = None, error = Some (js ''Message too long'')\<rparr>
            else Inl (Error (js ''Failed to get AI response: '' @ error_message err)))"
  using assms by (simp add: getChatResponse_def create_def Let_def)

theorem getChatResponse_call_failure_witness:
  "trimmedPlanData None = Inr None
   \<and> fst (getChatResponse
            (fixedClient (Inl \<lparr>code = Some (js ''context_length_exceeded''), error_message = js ''too long''\<rparr>))
            noStringify (Some (js ''hi'')) None None [] emptyWorld) =
       Inr \<lparr>message = js (''I apologize, but the plan and conversation history are too long for me to process. '' @
                           ''Could you try breaking down your request into smaller parts?''),
            updatedPlan = None, error = Some (js ''Message too long'')\<rparr>
   \<and> fst (getChatResponse
            (fixedClient (Inl \<lparr>code = Some (js ''rate_limit_exceeded''), error_message = js ''slow down''\<rparr>))
            noStringify (Some (js ''hi'')) None None [] emptyWorld) =
       Inl (Error (js ''Failed to get AI response: '' @ js ''slow down''))"
  using getChatResponse_call_failure [of None None
      "fixedClient (Inl \<lparr>code = Some (js ''context_length_exceeded''), error_message = js ''too long''\<rparr>)"
      emptyWorld noStringify "Some (js ''hi'')" None "[]"
      "\<lparr>code = Some (js ''context_length_exceeded''), error_message = js ''too long''\<rparr>"]
    getChatResponse_call_failure [of None None
      "fixedClient (Inl \<lparr>code = Some (js ''rate_limit_exceeded''), error_message = js ''slow down''\<rparr>)"
      emptyWorld noStringify "Some (js ''hi'')" None "[]"
      "\<lparr>code = Some (js ''rate_limit_exceeded''), error_message = js ''slow down''\<rparr>"]
  by (simp add: trimmedPlanData_None fixedClient_def js_def)

subsection \<open>The messages sent\<close>

lemma getChatResponse_sent:
  "sent (snd (getChatResponse openai stringify msg planData rfpText history w)) =
     (case trimmedPlanData planData of
        Inl e \<Rightarrow> sent w
      | Inr trimmed \<Rightarrow> sent w @ [chatRequest stringify msg rfpText history trimmed])"
proof (cases "trimmedPlanData planData")
  case (Inl e)
  then show ?thesis by (simp add: getChatResponse_def)
next
  case (Inr trimmed)
  have r: "sent (snd (respond content planData w')) = sent w'" for content w'
    by (auto simp: respond_def planUpdate_def console_write_def Let_def
        split: option.splits sum.splits prod.splits)
  show ?thesis
  proof (cases "openai (length (sent w)) (chatRequest stringify msg rfpText history trimmed)")
    case (Inl err)
    with Inr show ?thesis
      by (simp add: getChatResponse_def create_def Let_def console_write_def)
  next
    case ans: (Inr content)
    have "sent (snd (case respond content planData w' of (r, w2) \<Rightarrow> (Inr r :: js_error + chat_response, w2))) = sent w'" for w'
      using r [of content w'] by (cases "respond content planData w'") simp
    with Inr ans show ?thesis
      by (simp add: getChatResponse_def create_def)
  qed
qed

text \<open>
  C10. Every request \<open>getChatResponse\<close> sends holds only messages whose content is not
  blank. Whenever the prompt could be built, exactly one request is sent, whatever is
  blank: its messages are the system message, the last five entries of the history and
  the user's message, in this order, without those of blank content.
\<close>

theorem getChatResponse_messages_nonblank:
  "\<exists>new. sent (snd (getChatResponse openai stringify msg planData rfpText history w)) = sent w @ new
     \<and> (\<forall>rq \<in> set new. \<forall>m \<in> set (messages rq). trim (m_content m) \<noteq> [])
     \<and> (\<forall>trimmed. trimmedPlanData planData = Inr trimmed \<longrightarrow>
          (\<exists>rq. new = [rq] \<and>
             messages rq =
               filter (\<lambda>m. trim (m_content m) \<noteq> [])
                 (\<lparr>m_role = System, m_content = systemMessage stringify rfpText trimmed\<rparr>
                  # map (\<lambda>h. \<lparr>m_role = h_role h, m_content = orEmpty (h_content h)\<rparr>)
                      (drop (length history - 5) history)
                  @ [\<lparr>m_role = User, m_content = orEmpty msg\<rparr>])))"
  by (cases "trimmedPlanData planData")
    (auto simp: getChatResponse_sent chatRequest_def buildMessages_def slice_last_def)


theorem getChatResponse_messages_nonblank_witness:
  "sent (snd (getChatResponse (fixedClient (Inr None)) noStringify (Some (js ''hi'')) None None
                blankHistory emptyWorld))
     = [chatRequest noStringify (Some (js ''hi'')) None blankHistory None]
   \<and> list_all (\<lambda>m. trim (m_content m) \<noteq> [])
         (messages (chatRequest noStringify (Some (js ''hi'')) None blankHistory None))
   \<and> map m_role (messages (chatRequest noStringify (Some (js ''hi'')) None blankHistory None))
       = [System, User]"
proof -
  let ?rq = "chatRequest noStringify (Some (js ''hi'')) None blankHistory None"
  let ?w = "snd (getChatResponse (fixedClient (Inr None)) noStringify (Some (js ''hi'')) None None
                blankHistory emptyWorld)"
  have s: "sent ?w = [?rq]"
    by (simp add: getChatResponse_sent trimmedPlanData_None emptyWorld_def)
  from getChatResponse_messages_nonblank
         [of "fixedClient (Inr None)" noStringify "Some (js ''hi'')" None None blankHistory emptyWorld]
  obtain new where "sent ?w = sent emptyWorld @ new"
    and nb: "\<forall>rq \<in> set new. \<forall>m \<in> set (messages rq). trim (m_content m) \<noteq> []"
    by (elim exE conjE) auto
  with s have "new = [?rq]" by (simp add: emptyWorld_def)
  with nb have "list_all (\<lambda>m. trim (m_content m) \<noteq> []) (messages ?rq)"
    by (simp add: list_all_iff)
  moreover have "map m_role (messages ?rq) = [System, User]" by code_simp
  ultimately show ?thesis using s by simp
qed

subsection \<open>Plan updates\<close>

lemma validateTasks_None_iff: "validateTasks i ts = None \<longleftrightarrow> (\<forall>t \<in> set ts. lineAccepted t)"
proof (induction ts arbitrary: i)
  case Nil
  show ?case by simp
next
  case (Cons t ts)
  show ?case
  proof (cases "t = JNull")
    case True
    then show ?thesis by (simp add: lineAccepted_def truthyOpt_def)
  next
    case False
    then have "validateTasks i (t # ts) =
        (if \<not> lineAccepted t then Some (Error (js ''Invalid task format at index '' @ decimal i))
         else validateTasks (Suc i) ts)"
      by (cases t) (simp_all add: lineAccepted_def)
    with Cons.IH [of "Suc i"] show ?thesis by simp
  qed
qed

lemma validateUpdate_Inr_iff:
  "validateUpdate u = Inr ts \<longleftrightarrow> tasksArray u = Some ts \<and> (\<forall>t \<in> set ts. lineAccepted t)"
proof (cases "u = JNull")
  case True
  then show ?thesis by (simp add: validateUpdate_def tasksArray_def)
next
  case False
  then have "validateUpdate u =
      (case tasksArray u of
         Some tasks \<Rightarrow> (case validateTasks 0 tasks of Some e \<Rightarrow> Inl e | None \<Rightarrow> Inr tasks)
       | None \<Rightarrow> Inl (Error (js ''Invalid update format - missing tasks array'')))"
    by (cases u) (auto simp: validateUpdate_def tasksArray_def split: option.splits json.splits)
  then show ?thesis
    by (auto split: option.splits simp: validateTasks_None_iff [of 0, symmetric])
qed

lemma includes_extractUpdate:
  assumes "includes_str content PLAN_UPDATE"
  shows "\<exists>jsonStr explanation. extractUpdate content = Inr (jsonStr, explanation)"
proof -
  from assms obtain i where i: "indexOf content PLAN_UPDATE = Some i"
    by (auto simp: includes_str_def)
  have "split_str content PLAN_UPDATE =
          take i content # split_str (drop (i + length PLAN_UPDATE) content) PLAN_UPDATE"
    by (subst split_str.simps) (simp add: i PLAN_UPDATE_nonempty)
  moreover have "split_str (drop (i + length PLAN_UPDATE) content) PLAN_UPDATE \<noteq> []"
    by (rule split_str_nonempty [OF PLAN_UPDATE_nonempty])
  ultimately have "1 < length (split_str content PLAN_UPDATE)"
    by (cases "split_str (drop (i + length PLAN_UPDATE) content) PLAN_UPDATE") simp_all
  then show ?thesis by (simp add: extractUpdate_def Let_def)
qed

lemma planUpdate_result:
  assumes "extractUpdate content = Inr (jsonStr, explanation)"
  shows "fst (planUpdate content planData w) =
     (case JSON_parse jsonStr of
        None \<Rightarrow> Inl SyntaxError
      | Some u \<Rightarrow>
          (case validateUpdate u of
             Inl e \<Rightarrow> Inl e
           | Inr tasks \<Rightarrow>
               Inr \<lparr>message = (if explanation = [] then js ''Plan updated successfully'' else explanation),
                    updatedPlan = Some (JObject (setProp (js ''finalStaffingPlan'')
                                                  (JObject [(js ''tasks'', JArray tasks)])
                                                  (ownProps planData))),
                    error = None\<rparr>))"
  using assms by (simp add: planUpdate_def Let_def split: option.splits sum.splits)

lemma respond_marker:
  assumes "includes_str content PLAN_UPDATE"
  shows "fst (respond (Some content) planData w) =
     (case fst (planUpdate content planData w) of
        Inr r \<Rightarrow> r
      | Inl e \<Rightarrow> \<lparr>message = clarification, updatedPlan = None,
                   error = Some (js ''Failed to parse plan update'')\<rparr>)"
proof -
  from assms have "content \<noteq> []"
    by (auto simp: includes_str_def PLAN_UPDATE_nonempty)
  with assms show ?thesis
    by (cases "planUpdate content planData w") (simp add: respond_def split: sum.splits)
qed

lemma getChatResponse_respond:
  assumes "trimmedPlanData planData = Inr trimmed"
    and "openai (length (sent w)) (chatRequest stringify msg rfpText history trimmed) = Inr content"
  shows "fst (getChatResponse openai stringify msg planData rfpText history w) =
           Inr (fst (respond content planData
                  (w\<lparr>sent := sent w @ [chatRequest stringify msg rfpText history trimmed]\<rparr>)))"
  using assms by (simp add: getChatResponse_def create_def split: prod.splits)





lemma map_of_setProp: "map_of (setProp k v ps) k' = (if k' = k then Some v else map_of ps k')"
  by (induction ps) auto

lemma getChatResponse_accept:
  assumes "trimmedPlanData planData = Inr trimmed"
    and "openai (length (sent w)) (chatRequest stringify msg rfpText history trimmed) = Inr (Some content)"
    and "includes_str content PLAN_UPDATE"
    and "extractUpdate content = Inr (jsonStr, explanation)"
    and "JSON_parse jsonStr = Some u"
    and "tasksArray u = Some ts"
    and "\<forall>t \<in> set ts. lineAccepted t"
  shows "fst (getChatResponse openai stringify msg planData rfpText history w) =
       Inr \<lparr>message = (if explanation = [] then js ''Plan updated successfully'' else explanation),
            updatedPlan = Some (JObject (setProp (js ''finalStaffingPlan'')
                                          (JObject [(js ''tasks'', JArray ts)]) (ownProps planData))),
            error = None\<rparr>"
proof -
  from assms(6,7) have "validateUpdate u = Inr ts"
    by (simp add: validateUpdate_Inr_iff)
  with assms(5) have
    "fst (planUpdate content planData w') =
       Inr \<lparr>message = (if explanation = [] then js ''Plan updated successfully'' else explanation),
            updatedPlan = Some (JObject (setProp (js ''finalStaffingPlan'')
                                          (JObject [(js ''tasks'', JArray ts)]) (ownProps planData))),
            error = None\<rparr>" for w'
    by (simp add: planUpdate_result [OF assms(4)])
  then show ?thesis
    using assms(1,2) by (simp add: getChatResponse_respond respond_marker [OF assms(3)])
qed

text \<open>
  What the spread \<open>{...planData, finalStaffingPlan: ...}\<close> keeps of the plan given: the
  own properties of an object, the elements of an array and the characters of a
  string under their indices in decimal, and nothing of any other value.
\<close>

lemma decimal_nonempty: "decimal n \<noteq> []"
  by (subst decimal.simps) simp

lemma decimal_last: "last (decimal n) = of_nat (48 + n mod 10)"
  by (subst decimal.simps) simp

lemma decimal_butlast: "butlast (decimal n) = (if n < 10 then [] else decimal (n div 10))"
  by (subst decimal.simps) simp

lemma digit_char_inj:
  assumes "(of_nat (48 + a) :: char16) = of_nat (48 + b)" and "a < 10" and "b < 10"
  shows "a = b"
proof -
  have u: "unat (of_nat (48 + k) :: char16) = 48 + k" if "k < 10" for k
    using that by (subst unat_of_nat) simp
  from assms(1) have "unat (of_nat (48 + a) :: char16) = unat (of_nat (48 + b) :: char16)"
    by (rule arg_cong)
  with assms(2,3) show ?thesis
    by (simp only: u)
qed

lemma decimal_inj: "decimal m = decimal n \<Longrightarrow> m = n"
proof (induction m arbitrary: n rule: decimal.induct)
  case (1 m)
  from "1.prems" have "last (decimal m) = last (decimal n)" by simp
  then have md: "m mod 10 = n mod 10"
    by (simp add: decimal_last) (rule digit_char_inj, simp_all)
  from "1.prems" have bl: "butlast (decimal m) = butlast (decimal n)" by simp
  show ?case
  proof (cases "m < 10")
    case True
    with bl have "n < 10"
      using decimal_nonempty [of "n div 10"]
      by (auto simp: decimal_butlast split: if_splits)
    with True md show ?thesis by simp
  next
    case False
    with bl have n: "\<not> n < 10" and "decimal (m div 10) = decimal (n div 10)"
      using decimal_nonempty [of "m div 10"]
      by (auto simp: decimal_butlast split: if_splits)
    from "1.IH" [OF False this(2)] have "m div 10 = n div 10" .
    with md show ?thesis
      by (metis div_mult_mod_eq)
  qed
qed

lemma decimal_digits: "c \<in> set (decimal n) \<Longrightarrow> isDigit c"
proof (induction n rule: decimal.induct)
  case (1 n)
  have d: "isDigit (of_nat (48 + k))" if "k < 10" for k
  proof -
    from that have "unat (of_nat (48 + k) :: char16) = 48 + k"
      by (subst unat_of_nat) simp
    with that show ?thesis
      by (simp add: isDigit_def word_le_nat_alt)
  qed
  from "1.prems" have "c \<in> set (if n < 10 then [of_nat (48 + n)] else decimal (n div 10) @ [of_nat (48 + n mod 10)])"
    by (subst (asm) decimal.simps)
  then show ?case
    using "1.IH" d [of n] d [of "n mod 10"] by (auto split: if_splits)
qed

lemma decimal_not_finalStaffingPlan: "decimal n \<noteq> js ''finalStaffingPlan''"
proof
  assume "decimal n = js ''finalStaffingPlan''"
  then have "0x66 \<in> set (decimal n)" by (simp add: js_def)
  from decimal_digits [OF this] show False by (simp add: isDigit_def)
qed

lemma map_of_indices:
  "map_of (zip (map decimal [0..<length xs]) xs) k =
     (if \<exists>n < length xs. k = decimal n then Some (xs ! (THE n. k = decimal n)) else None)"
proof (cases "\<exists>n < length xs. k = decimal n")
  case True
  then obtain n where n: "n < length xs" "k = decimal n" by blast
  have the: "(THE m. k = decimal m) = n"
    using n(2) by (auto dest: decimal_inj)
  have dist: "distinct (map decimal [0..<length xs])"
    by (simp add: distinct_map inj_on_def) (auto dest: decimal_inj)
  from map_of_zip_nth [of "map decimal [0..<length xs]" xs n] dist n
  have "map_of (zip (map decimal [0..<length xs]) xs) k = Some (xs ! n)" by simp
  with True the show ?thesis by simp
next
  case False
  then have "k \<notin> set (map decimal [0..<length xs])" by auto
  then have "map_of (zip (map decimal [0..<length xs]) xs) k = None"
    by (subst map_of_zip_is_None) simp_all
  then show ?thesis unfolding if_not_P [OF False] .
qed

lemma spread_frame:
  assumes p_def: "p = JObject (setProp (js ''finalStaffingPlan'') v (ownProps planData))"
  shows "case planData of
        Some (JObject ps) \<Rightarrow>
          (\<forall>k. k \<noteq> js ''finalStaffingPlan'' \<longrightarrow> member p k = member (JObject ps) k)
      | Some (JArray xs) \<Rightarrow>
          (\<forall>n < length xs. member p (decimal n) = Some (xs ! n))
          \<and> (\<forall>k. k \<noteq> js ''finalStaffingPlan'' \<longrightarrow> (\<forall>n < length xs. k \<noteq> decimal n) \<longrightarrow> member p k = None)
      | Some (JString str) \<Rightarrow>
          (\<forall>n < length str. member p (decimal n) = Some (JString [str ! n]))
          \<and> (\<forall>k. k \<noteq> js ''finalStaffingPlan'' \<longrightarrow> (\<forall>n < length str. k \<noteq> decimal n) \<longrightarrow> member p k = None)
      | _ \<Rightarrow> (\<forall>k. k \<noteq> js ''finalStaffingPlan'' \<longrightarrow> member p k = None)"
proof -
  have idx: "map_of (zip (map decimal [0..<length ys]) ys) (decimal n) = Some (ys ! n)"
    if "n < length ys" for n and ys :: "json list"
  proof -
    have "(THE m. decimal n = decimal m) = n" by (auto dest: decimal_inj)
    with that show ?thesis by (auto simp: map_of_indices)
  qed
  have none: "map_of (zip (map decimal [0..<length ys]) ys) k = None"
    if "\<forall>n < length ys. k \<noteq> decimal n" for k and ys :: "json list"
    using that by (simp add: map_of_indices)
  show ?thesis
  proof (cases planData)
    case None
    then show ?thesis by (simp add: p_def map_of_setProp)
  next
    case (Some d)
    show ?thesis
    proof (cases d)
      case (JArray xs)
      with Some show ?thesis
        by (simp add: p_def map_of_setProp decimal_not_finalStaffingPlan idx none)
    next
      case (JString str)
      with Some idx [of _ "map (\<lambda>c. JString [c]) str"] none [of "map (\<lambda>c. JString [c]) str"]
      show ?thesis
        by (simp add: p_def map_of_setProp decimal_not_finalStaffingPlan)
    qed (use Some in \<open>simp_all add: p_def map_of_setProp\<close>)
  qed
qed

lemma replyNegativeHours_eval:
  \<open>includes_str replyNegativeHours PLAN_UPDATE\<close>
  \<open>extractUpdate replyNegativeHours = Inr (js ''{"tasks":[{"taskId":"T1","lcat":"PM","hours":-5}]}'', [])\<close>
  \<open>JSON_parse (js ''{"tasks":[{"taskId":"T1","lcat":"PM","hours":-5}]}'')
     = Some (JObject [(js ''tasks'', JArray [lineNegativeHours])])\<close>
  by code_simp+

lemma lineNegativeHours_accepted:
  "truthyOpt (member lineNegativeHours (js ''taskId''))"
  "truthyOpt (member lineNegativeHours (js ''lcat''))"
  "isNumber (member lineNegativeHours (js ''hours''))"
  by (simp_all add: lineNegativeHours_def js_def truthyOpt_def)

lemma trimmedPlanData_oldPlan: "\<exists>trimmed. trimmedPlanData (Some oldPlan) = Inr (Some trimmed)"
  by (simp add: trimmedPlanData_def planTasks_def oldPlan_def js_def truthyOpt_def trimmedTask_def
      List.map_filter_def)

text \<open>
  C5. When the reply contains the marker and the extracted update parses and passes
  the validation, \<open>updatedPlan\<close> is the plan given with \<open>finalStaffingPlan\<close> replaced by
  an object that holds exactly the tasks of the update. Every other property is the
  one of the plan given: for a plan that is an object, each key other than
  \<open>finalStaffingPlan\<close> has in \<open>updatedPlan\<close> the value, or the absence, it has in the plan;
  a plan that is an array or a string gives its elements under their indices and no
  other property; any other plan, and no plan, gives no other property.
\<close>

theorem getChatResponse_full_replacement:
  assumes "trimmedPlanData planData = Inr trimmed"
    and "openai (length (sent w)) (chatRequest stringify msg rfpText history trimmed) = Inr (Some content)"
    and "includes_str content PLAN_UPDATE"
    and "extractUpdate content = Inr (jsonStr, explanation)"
    and "JSON_parse jsonStr = Some u"
    and "tasksArray u = Some ts"
    and "\<forall>t \<in> set ts. truthyOpt (member t (js ''taskId'')) \<and> truthyOpt (member t (js ''lcat''))
                      \<and> isNumber (member t (js ''hours''))"
  shows "\<exists>p. fst (getChatResponse openai stringify msg planData rfpText history w) =
               Inr \<lparr>message = (if explanation = [] then js ''Plan updated successfully'' else explanation),
                    updatedPlan = Some p, error = None\<rparr>
           \<and> member p (js ''finalStaffingPlan'') = Some (JObject [(js ''tasks'', JArray ts)])
           \<and> (case planData of
                 Some (JObject ps) \<Rightarrow>
                   (\<forall>k. k \<noteq> js ''finalStaffingPlan'' \<longrightarrow> member p k = member (JObject ps) k)
               | Some (JArray xs) \<Rightarrow>
                   (\<forall>n < length xs. member p (decimal n) = Some (xs ! n))
                   \<and> (\<forall>k. k \<noteq> js ''finalStaffingPlan'' \<longrightarrow> (\<forall>n < length xs. k \<noteq> decimal n)
                          \<longrightarrow> member p k = None)
               | Some (JString str) \<Rightarrow>
                   (\<forall>n < length str. member p (decimal n) = Some (JString [str ! n]))
                   \<and> (\<forall>k. k \<noteq> js ''finalStaffingPlan'' \<longrightarrow> (\<forall>n < length str. k \<noteq> decimal n)
                          \<longrightarrow> member p k = None)
               | _ \<Rightarrow> (\<forall>k. k \<noteq> js ''finalStaffingPlan'' \<longrightarrow> member p k = None))"
proof -
  let ?p = "JObject (setProp (js ''finalStaffingPlan'') (JObject [(js ''tasks'', JArray ts)])
                      (ownProps planData))"
  from assms(7) have "\<forall>t \<in> set ts. lineAccepted t"
    by (simp add: lineAccepted_def)
  from getChatResponse_accept [where openai = openai, OF assms(1-6) this]
  have r: "fst (getChatResponse openai stringify msg planData rfpText history w) =
       Inr \<lparr>message = (if explanation = [] then js ''Plan updated successfully'' else explanation),
            updatedPlan = Some ?p, error = None\<rparr>" .
  have m: "member ?p (js ''finalStaffingPlan'') = Some (JObject [(js ''tasks'', JArray ts)])"
    by (simp add: map_of_setProp)
  from r m spread_frame [of ?p "JObject [(js ''tasks'', JArray ts)]" planData, OF refl]
  show ?thesis by (intro exI [of _ ?p] conjI)
qed

theorem getChatResponse_full_replacement_witness:
  \<open>includes_str replyNegativeHours PLAN_UPDATE
   \<and> extractUpdate replyNegativeHours = Inr (js ''{"tasks":[{"taskId":"T1","lcat":"PM","hours":-5}]}'', [])
   \<and> JSON_parse (js ''{"tasks":[{"taskId":"T1","lcat":"PM","hours":-5}]}'')
       = Some (JObject [(js ''tasks'', JArray [lineNegativeHours])])
   \<and> tasksArray (JObject [(js ''tasks'', JArray [lineNegativeHours])]) = Some [lineNegativeHours]
   \<and> (\<exists>p. fst (getChatResponse (fixedClient (Inr (Some replyNegativeHours))) noStringify
                  (Some (js ''hi'')) (Some oldPlan) None [] emptyWorld) =
              Inr \<lparr>message = js ''Plan updated successfully'', updatedPlan = Some p, error = None\<rparr>
          \<and> member p (js ''finalStaffingPlan'') = Some (JObject [(js ''tasks'', JArray [lineNegativeHours])])
          \<and> member p (js ''id'') = Some (JString (js ''plan-1''))
          \<and> member p (js ''rfpText'') = Some (JString (js ''RFP''))
          \<and> member p (js ''step1Tasks'') = Some (JArray [])
          \<and> member p (js ''step2TasksWithLCATs'') = None)\<close>
proof -
  obtain trimmed where tr: "trimmedPlanData (Some oldPlan) = Inr (Some trimmed)"
    using trimmedPlanData_oldPlan by blast
  have t: "tasksArray (JObject [(js ''tasks'', JArray [lineNegativeHours])]) = Some [lineNegativeHours]"
    by (simp add: tasksArray_def)
  have c: "fixedClient (Inr (Some replyNegativeHours)) (length (sent emptyWorld))
             (chatRequest noStringify (Some (js ''hi'')) None [] (Some trimmed)) = Inr (Some replyNegativeHours)"
    by (simp add: fixedClient_def)
  have a: "\<forall>t \<in> set [lineNegativeHours]. truthyOpt (member t (js ''taskId''))
             \<and> truthyOpt (member t (js ''lcat'')) \<and> isNumber (member t (js ''hours''))"
    by (simp add: lineNegativeHours_accepted)
  have o: "member oldPlan (js ''id'') = Some (JString (js ''plan-1''))"
    "member oldPlan (js ''rfpText'') = Some (JString (js ''RFP''))"
    "member oldPlan (js ''step1Tasks'') = Some (JArray [])"
    "member oldPlan (js ''step2TasksWithLCATs'') = None"
    "js ''id'' \<noteq> js ''finalStaffingPlan''" "js ''rfpText'' \<noteq> js ''finalStaffingPlan''"
    "js ''step1Tasks'' \<noteq> js ''finalStaffingPlan''" "js ''step2TasksWithLCATs'' \<noteq> js ''finalStaffingPlan''"
    by (simp_all add: oldPlan_def js_def)
  from getChatResponse_full_replacement
         [where openai = "fixedClient (Inr (Some replyNegativeHours))", OF tr c replyNegativeHours_eval t a]
  obtain p where p: "fst (getChatResponse (fixedClient (Inr (Some replyNegativeHours))) noStringify
                  (Some (js ''hi'')) (Some oldPlan) None [] emptyWorld) =
              Inr \<lparr>message = js ''Plan updated successfully'', updatedPlan = Some p, error = None\<rparr>"
    and f: "member p (js ''finalStaffingPlan'') = Some (JObject [(js ''tasks'', JArray [lineNegativeHours])])"
    and fr: "\<forall>k. k \<noteq> js ''finalStaffingPlan'' \<longrightarrow> member p k = member oldPlan k"
    by (auto simp: oldPlan_def)
  from fr o have "member p (js ''id'') = Some (JString (js ''plan-1''))"
    "member p (js ''rfpText'') = Some (JString (js ''RFP''))"
    "member p (js ''step1Tasks'') = Some (JArray [])"
    "member p (js ''step2TasksWithLCATs'') = None"
    by simp_all
  with p f replyNegativeHours_eval t show ?thesis by blast
qed

lemma respond_updatedPlan:
  assumes "updatedPlan (fst (respond content planData w)) = Some p"
  shows "\<exists>ts. p = JObject (setProp (js ''finalStaffingPlan'') (JObject [(js ''tasks'', JArray ts)])
                       (ownProps planData))
              \<and> (\<forall>t \<in> set ts. lineAccepted t)"
proof (cases content)
  case None
  with assms show ?thesis by (simp add: respond_def)
next
  case (Some c)
  show ?thesis
  proof (cases "includes_str c PLAN_UPDATE")
    case False
    with assms Some show ?thesis by (simp add: respond_def split: if_splits)
  next
    case True
    then obtain jsonStr explanation where ex: "extractUpdate c = Inr (jsonStr, explanation)"
      using includes_extractUpdate by blast
    from assms Some have "updatedPlan (fst (respond (Some c) planData w)) = Some p"
      by simp
    then show ?thesis
      by (auto simp: respond_marker [OF True] planUpdate_result [OF ex] validateUpdate_Inr_iff
          split: option.splits sum.splits)
  qed
qed

text \<open>
  C8 (as amended). Every line of an update that \<open>getChatResponse\<close> accepts has a truthy
  \<open>taskId\<close>, a truthy \<open>lcat\<close> and a number as \<open>hours\<close>. Neither the sign of \<open>hours\<close> nor
  \<open>mathRationale\<close> is checked.
\<close>

theorem getChatResponse_accepted_lines:
  assumes "fst (getChatResponse openai stringify msg planData rfpText history w) = Inr r"
    and "updatedPlan r = Some p"
  shows "\<exists>ts. member p (js ''finalStaffingPlan'') = Some (JObject [(js ''tasks'', JArray ts)])
           \<and> (\<forall>t \<in> set ts. truthyOpt (member t (js ''taskId'')) \<and> truthyOpt (member t (js ''lcat''))
                             \<and> isNumber (member t (js ''hours'')))"
proof -
  have "\<exists>content w'. updatedPlan (fst (respond content planData w')) = Some p"
  proof (cases "trimmedPlanData planData")
    case (Inl e)
    with assms(1) show ?thesis by (simp add: getChatResponse_def)
  next
    case (Inr trimmed)
    show ?thesis
    proof (cases "openai (length (sent w)) (chatRequest stringify msg rfpText history trimmed)")
      case (Inl err)
      with Inr assms show ?thesis
        by (auto simp: getChatResponse_def create_def Let_def split: if_splits)
    next
      case ans: (Inr content)
      from assms show ?thesis
        unfolding getChatResponse_respond [where openai = openai, OF Inr ans] by auto
    qed
  qed
  then obtain content w' where "updatedPlan (fst (respond content planData w')) = Some p"
    by blast
  from respond_updatedPlan [OF this] show ?thesis
    by (auto simp: map_of_setProp lineAccepted_def)
qed

text \<open>
  An update whose only line has \<open>hours\<close> -5 and no \<open>mathRationale\<close> is accepted.
\<close>

theorem getChatResponse_negative_hours_counterexample:
  "fst (getChatResponse (fixedClient (Inr (Some replyNegativeHours))) noStringify (Some (js ''hi''))
          None None [] emptyWorld) =
     Inr \<lparr>message = js ''Plan updated successfully'',
          updatedPlan = Some (JObject [(js ''finalStaffingPlan'',
                                        JObject [(js ''tasks'', JArray [lineNegativeHours])])]),
          error = None\<rparr>
   \<and> member lineNegativeHours (js ''hours'') = Some (JNumber (- 5))
   \<and> (- 5 :: rat) < 0
   \<and> member lineNegativeHours (js ''mathRationale'') = None"
proof -
  have t: "tasksArray (JObject [(js ''tasks'', JArray [lineNegativeHours])]) = Some [lineNegativeHours]"
    by (simp add: tasksArray_def)
  have c: "fixedClient (Inr (Some replyNegativeHours)) (length (sent emptyWorld))
             (chatRequest noStringify (Some (js ''hi'')) None [] None) = Inr (Some replyNegativeHours)"
    by (simp add: fixedClient_def)
  have a: "\<forall>t \<in> set [lineNegativeHours]. lineAccepted t"
    by (simp add: lineAccepted_def lineNegativeHours_accepted)
  from getChatResponse_accept
         [where openai = "fixedClient (Inr (Some replyNegativeHours))",
          OF trimmedPlanData_None c replyNegativeHours_eval t a]
  show ?thesis
    by (simp add: lineNegativeHours_def js_def)
qed

theorem getChatResponse_accepted_lines_witness:
  "fst (getChatResponse (fixedClient (Inr (Some replyNegativeHours))) noStringify (Some (js ''hi''))
          None None [] emptyWorld) =
     Inr \<lparr>message = js ''Plan updated successfully'',
          updatedPlan = Some (JObject [(js ''finalStaffingPlan'',
                                        JObject [(js ''tasks'', JArray [lineNegativeHours])])]),
          error = None\<rparr>
   \<and> (\<exists>ts. member (JObject [(js ''finalStaffingPlan'', JObject [(js ''tasks'', JArray [lineNegativeHours])])])
               (js ''finalStaffingPlan'') = Some (JObject [(js ''tasks'', JArray ts)])
           \<and> (\<forall>t \<in> set ts. truthyOpt (member t (js ''taskId'')) \<and> truthyOpt (member t (js ''lcat''))
                             \<and> isNumber (member t (js ''hours''))))"
proof -
  have t: "tasksArray (JObject [(js ''tasks'', JArray [lineNegativeHours])]) = Some [lineNegativeHours]"
    by (simp add: tasksArray_def)
  have c: "fixedClient (Inr (Some replyNegativeHours)) (length (sent emptyWorld))
             (chatRequest noStringify (Some (js ''hi'')) None [] None) = Inr (Some replyNegativeHours)"
    by (simp add: fixedClient_def)
  have a: "\<forall>t \<in> set [lineNegativeHours]. lineAccepted t"
    by (simp add: lineAccepted_def lineNegativeHours_accepted)
  from getChatResponse_accept
         [where openai = "fixedClient (Inr (Some replyNegativeHours))",
          OF trimmedPlanData_None c replyNegativeHours_eval t a]
  have run: "fst (getChatResponse (fixedClient (Inr (Some replyNegativeHours))) noStringify (Some (js ''hi''))
          None None [] emptyWorld) =
     Inr \<lparr>message = js ''Plan updated successfully'',
          updatedPlan = Some (JObject [(js ''finalStaffingPlan'',
                                        JObject [(js ''tasks'', JArray [lineNegativeHours])])]),
          error = None\<rparr>"
    by simp
  from getChatResponse_accepted_lines [OF run] run show ?thesis by simp
qed


section \<open>Properties of \<open>JSON.parse\<close>\<close>

subsection \<open>Where a JSON text begins and ends\<close>

lemma lexString_suffix:
  "lexString s = Some (str, rest) \<Longrightarrow> \<exists>pre. s = pre @ 0x22 # rest"
proof (induction s arbitrary: str rest rule: length_induct)
  case (1 s)
  then have IH: "\<And>t str' rest'. length t < length s \<Longrightarrow> lexString t = Some (str', rest')
      \<Longrightarrow> \<exists>pre. t = pre @ 0x22 # rest'"
    by blast
  show ?case
  proof (cases s)
    case Nil
    with "1.prems" show ?thesis by simp
  next
    case (Cons c cs)
    show ?thesis
    proof (cases "c = 0x22")
      case True
      with Cons "1.prems" have "rest = cs" by simp
      with Cons True show ?thesis by (intro exI [of _ "[]"]) simp
    next
      case nq: False
      show ?thesis
      proof (cases "c = 0x5C")
        case False
        with nq Cons "1.prems" obtain str' where "lexString cs = Some (str', rest)"
          by (auto split: if_splits)
        from IH [OF _ this] Cons obtain pre where "cs = pre @ 0x22 # rest" by auto
        with Cons show ?thesis by (intro exI [of _ "c # pre"]) simp
      next
        case bs: True
        with nq Cons "1.prems" obtain e es where cs: "cs = e # es"
          by (cases cs) auto
        show ?thesis
        proof (cases "e = 0x75")
          case False
          with nq bs cs Cons "1.prems" obtain str' where "lexString es = Some (str', rest)"
            by (auto split: option.splits)
          from IH [OF _ this] Cons cs obtain pre where "es = pre @ 0x22 # rest" by auto
          with Cons cs show ?thesis by (intro exI [of _ "c # e # pre"]) simp
        next
          case u: True
          with nq bs cs Cons "1.prems" obtain h1 h2 h3 h4 r where es: "es = h1 # h2 # h3 # h4 # r"
            by (auto split: list.splits)
          with nq bs cs u Cons "1.prems" obtain str' where "lexString r = Some (str', rest)"
            by (auto split: option.splits)
          from IH [OF _ this] Cons cs es obtain pre where "r = pre @ 0x22 # rest" by auto
          with Cons cs es show ?thesis
            by (intro exI [of _ "c # e # h1 # h2 # h3 # h4 # pre"]) simp
        qed
      qed
    qed
  qed
qed

lemma digits_split:
  "takeWhile isDigit s \<noteq> [] \<Longrightarrow>
     \<exists>pre d. s = pre @ d # dropWhile isDigit s \<and> isDigit d \<and> pre @ [d] = takeWhile isDigit s"
proof -
  assume a: "takeWhile isDigit s \<noteq> []"
  then have "takeWhile isDigit s = butlast (takeWhile isDigit s) @ [last (takeWhile isDigit s)]"
    by simp
  moreover have "last (takeWhile isDigit s) \<in> set (takeWhile isDigit s)"
    using a by simp
  then have "isDigit (last (takeWhile isDigit s))"
    by (meson set_takeWhileD)
  moreover have "s = takeWhile isDigit s @ dropWhile isDigit s" by simp
  ultimately show ?thesis
    by (metis append.assoc append_Cons append_Nil)
qed

lemma lexInt_suffix:
  "lexInt s = Some (ds, rest) \<Longrightarrow> \<exists>pre d. s = pre @ d # rest \<and> isDigit d"
proof (cases s)
  case Nil
  assume "lexInt s = Some (ds, rest)"
  with Nil show ?thesis by (simp add: lexInt_def)
next
  case (Cons c cs)
  assume a: "lexInt s = Some (ds, rest)"
  show ?thesis
  proof (cases "c = 0x30")
    case True
    with a Cons have "rest = cs" by (simp add: lexInt_def)
    with Cons True show ?thesis by (intro exI [of _ "[]"] exI [of _ c]) (simp add: isDigit_def)
  next
    case False
    with a Cons have d: "isDigit c" and r: "rest = dropWhile isDigit s"
      by (auto simp: lexInt_def split: if_splits)
    from d Cons have "takeWhile isDigit s \<noteq> []" by simp
    from digits_split [OF this] r show ?thesis by blast
  qed
qed

lemma lexFrac_suffix:
  "lexFrac s = Some (ds, rest) \<Longrightarrow> rest = s \<or> (\<exists>pre d. s = pre @ d # rest \<and> isDigit d)"
proof (cases s)
  case Nil
  assume "lexFrac s = Some (ds, rest)"
  with Nil show ?thesis by (simp add: lexFrac_def)
next
  case (Cons c cs)
  assume a: "lexFrac s = Some (ds, rest)"
  show ?thesis
  proof (cases "c = 0x2E")
    case False
    with a Cons show ?thesis by (simp add: lexFrac_def)
  next
    case True
    with a Cons have t: "takeWhile isDigit cs \<noteq> []" and r: "rest = dropWhile isDigit cs"
      by (auto simp: lexFrac_def split: if_splits)
    from digits_split [OF t] r obtain pre d where "cs = pre @ d # rest" "isDigit d" by blast
    with Cons have "s = (c # pre) @ d # rest" by simp
    with \<open>isDigit d\<close> show ?thesis by blast
  qed
qed

lemma lexExp_suffix:
  "lexExp s = Some (e, rest) \<Longrightarrow> rest = s \<or> (\<exists>pre d. s = pre @ d # rest \<and> isDigit d)"
proof (cases s)
  case Nil
  assume "lexExp s = Some (e, rest)"
  with Nil show ?thesis by (simp add: lexExp_def)
next
  case (Cons c cs)
  assume a: "lexExp s = Some (e, rest)"
  show ?thesis
  proof (cases "c = 0x65 \<or> c = 0x45")
    case False
    with a Cons show ?thesis by (simp add: lexExp_def)
  next
    case True
    define ds where "ds = (case cs of [] \<Rightarrow> cs | d # r \<Rightarrow> if d = 0x2D then r else if d = 0x2B then r else cs)"
    have "\<exists>sg. cs = sg @ ds"
      by (cases cs) (auto simp: ds_def)
    then obtain sg where sg: "cs = sg @ ds" ..
    from a Cons True have t: "takeWhile isDigit ds \<noteq> []" and r: "rest = dropWhile isDigit ds"
      by (cases cs; auto simp: lexExp_def ds_def Let_def split: if_splits)+
    from digits_split [OF t] r obtain pre d where "ds = pre @ d # rest" "isDigit d" by blast
    with Cons sg have "s = (c # sg @ pre) @ d # rest" by simp
    with \<open>isDigit d\<close> show ?thesis by blast
  qed
qed

lemma lexNumber_suffix:
  "lexNumber s = Some (q, rest) \<Longrightarrow> \<exists>pre d. s = pre @ d # rest \<and> isDigit d"
proof -
  assume a: "lexNumber s = Some (q, rest)"
  define s1 where "s1 = (case s of [] \<Rightarrow> s | c # cs \<Rightarrow> if c = 0x2D then cs else s)"
  have "\<exists>sg. s = sg @ s1"
    by (cases s) (auto simp: s1_def)
  then obtain sg where sg: "s = sg @ s1" ..
  from a obtain ip s2 fp s3 e where
    i: "lexInt s1 = Some (ip, s2)" and f: "lexFrac s2 = Some (fp, s3)" and x: "lexExp s3 = Some (e, rest)"
    by (cases s) (auto simp: lexNumber_def s1_def Let_def split: option.splits if_splits)
  from lexInt_suffix [OF i] obtain p1 d1 where 1: "s1 = p1 @ d1 # s2" "isDigit d1" by blast
  from lexFrac_suffix [OF f] have "\<exists>p2 d2. s1 = p2 @ d2 # s3 \<and> isDigit d2"
  proof
    assume "s3 = s2"
    with 1 show ?thesis by blast
  next
    assume "\<exists>pre d. s2 = pre @ d # s3 \<and> isDigit d"
    then obtain p d where "s2 = p @ d # s3" "isDigit d" by blast
    with 1 have "s1 = (p1 @ d1 # p) @ d # s3" by simp
    with \<open>isDigit d\<close> show ?thesis by blast
  qed
  then obtain p2 d2 where 2: "s1 = p2 @ d2 # s3" "isDigit d2" by blast
  from lexExp_suffix [OF x] have "\<exists>p3 d3. s1 = p3 @ d3 # rest \<and> isDigit d3"
  proof
    assume "rest = s3"
    with 2 show ?thesis by blast
  next
    assume "\<exists>pre d. s3 = pre @ d # rest \<and> isDigit d"
    then obtain p d where "s3 = p @ d # rest" "isDigit d" by blast
    with 2 have "s1 = (p2 @ d2 # p) @ d # rest" by simp
    with \<open>isDigit d\<close> show ?thesis by blast
  qed
  then obtain p3 d3 where "s1 = p3 @ d3 # rest" "isDigit d3" by blast
  with sg have "s = (sg @ p3) @ d3 # rest" by simp
  with \<open>isDigit d3\<close> show ?thesis by blast
qed

lemma tokenize_last:
  "tokenize s = Some ts \<Longrightarrow> s \<noteq> [] \<Longrightarrow> isJsonWs (last s) \<or> isTokenEnd (last s)"
proof (induction s arbitrary: ts rule: length_induct)
  case (1 s)
  then have IH: "\<And>t ts'. length t < length s \<Longrightarrow> tokenize t = Some ts' \<Longrightarrow> t \<noteq> []
      \<Longrightarrow> isJsonWs (last t) \<or> isTokenEnd (last t)"
    by blast
  from "1.prems" obtain c cs where s: "s = c # cs" by (cases s) auto
  have step: "isJsonWs (last s) \<or> isTokenEnd (last s)"
    if "s = pre @ d # rest" "isTokenEnd d \<or> isJsonWs d" "tokenize rest = Some ts'" for pre d rest ts'
  proof (cases "rest = []")
    case True
    with that show ?thesis by auto
  next
    case False
    from that(1) have "length rest < length s" by simp
    from IH [OF this that(3) False] that(1) False show ?thesis by simp
  qed
  consider (ws) "isJsonWs c"
    | (punct) "\<not> isJsonWs c" "c = 0x7B \<or> c = 0x7D \<or> c = 0x5B \<or> c = 0x5D \<or> c = 0x3A \<or> c = 0x2C"
    | (str) "\<not> isJsonWs c" "\<not> (c = 0x7B \<or> c = 0x7D \<or> c = 0x5B \<or> c = 0x5D \<or> c = 0x3A \<or> c = 0x2C)" "c = 0x22"
    | (num) "\<not> isJsonWs c" "\<not> (c = 0x7B \<or> c = 0x7D \<or> c = 0x5B \<or> c = 0x5D \<or> c = 0x3A \<or> c = 0x2C)" "c \<noteq> 0x22"
        "c = 0x2D \<or> isDigit c"
    | (lit) "\<not> isJsonWs c" "\<not> (c = 0x7B \<or> c = 0x7D \<or> c = 0x5B \<or> c = 0x5D \<or> c = 0x3A \<or> c = 0x2C)" "c \<noteq> 0x22"
        "\<not> (c = 0x2D \<or> isDigit c)"
    by blast
  then show ?case
  proof cases
    case ws
    with "1.prems" s have "tokenize cs = Some ts" by simp
    from step [of "[]" c cs, OF _ _ this] s ws show ?thesis by simp
  next
    case punct
    with "1.prems" s obtain ts' where "tokenize cs = Some ts'"
      by (auto split: if_splits)
    from step [of "[]" c cs, OF _ _ this] s punct show ?thesis by (auto simp: isTokenEnd_def)
  next
    case str
    with "1.prems" s obtain st rest ts' where l: "lexString cs = Some (st, rest)" and t: "tokenize rest = Some ts'"
      by (auto split: option.splits)
    from lexString_suffix [OF l] obtain pre where "cs = pre @ 0x22 # rest" by blast
    with s have "s = (c # pre) @ 0x22 # rest" by simp
    from step [OF this _ t] show ?thesis by (simp add: isTokenEnd_def)
  next
    case num
    with "1.prems" s obtain q rest ts' where l: "lexNumber (c # cs) = Some (q, rest)" and t: "tokenize rest = Some ts'"
      by (auto split: option.splits)
    from lexNumber_suffix [OF l] s obtain pre d where "s = pre @ d # rest" "isDigit d" by blast
    from step [OF this(1) _ t] this(2) show ?thesis by (simp add: isTokenEnd_def)
  next
    case lit
    from lit "1.prems" s consider
        (t) "startsWith (c # cs) (js ''true'')" "\<exists>ts'. tokenize (drop 3 cs) = Some ts'"
      | (f) "startsWith (c # cs) (js ''false'')" "\<exists>ts'. tokenize (drop 4 cs) = Some ts'"
      | (n) "startsWith (c # cs) (js ''null'')" "\<exists>ts'. tokenize (drop 3 cs) = Some ts'"
      by (auto split: if_splits)
    then show ?thesis
    proof cases
      case t
      then obtain ts' where t': "tokenize (drop 3 cs) = Some ts'" by blast
      from t(1) obtain r where "cs = 0x72 # 0x75 # 0x65 # r"
        by (cases cs; cases "tl cs"; cases "tl (tl cs)") (auto simp: js_def)
      then have "s = [c, 0x72, 0x75] @ 0x65 # drop 3 cs" using s by simp
      from step [OF this _ t'] show ?thesis by (simp add: isTokenEnd_def)
    next
      case f
      then obtain ts' where t': "tokenize (drop 4 cs) = Some ts'" by blast
      from f(1) obtain r where "cs = 0x61 # 0x6C # 0x73 # 0x65 # r"
        by (cases cs; cases "tl cs"; cases "tl (tl cs)"; cases "tl (tl (tl cs))") (auto simp: js_def)
      then have "s = [c, 0x61, 0x6C, 0x73] @ 0x65 # drop 4 cs" using s by simp
      from step [OF this _ t'] show ?thesis by (simp add: isTokenEnd_def)
    next
      case n
      then obtain ts' where t': "tokenize (drop 3 cs) = Some ts'" by blast
      from n(1) obtain r where "cs = 0x75 # 0x6C # 0x6C # r"
        by (cases cs; cases "tl cs"; cases "tl (tl cs)") (auto simp: js_def)
      then have "s = [c, 0x75, 0x6C] @ 0x6C # drop 3 cs" using s by simp
      from step [OF this _ t'] show ?thesis by (simp add: isTokenEnd_def)
    qed
  qed
qed

lemma tokenize_first:
  "tokenize s = Some ts \<Longrightarrow> s \<noteq> [] \<Longrightarrow> isJsonWs (hd s) \<or> isTokenStart (hd s)"
  by (cases s) (auto simp: isTokenStart_def js_def split: if_splits)

subsection \<open>White space around a JSON text\<close>

lemma isJsonWs_facts:
  assumes "isJsonWs c"
  shows "c \<noteq> 0x22" "c \<noteq> 0x5C" "c \<noteq> 0x75" "unescape c = None" "hexVal c = None" "\<not> isDigit c"
    "c \<noteq> 0x2D" "c \<noteq> 0x2B" "c \<noteq> 0x2E" "c \<noteq> 0x65" "c \<noteq> 0x45" "c \<noteq> 0x30"
  using assms by (auto simp: isJsonWs_def unescape_def hexVal_def isDigit_def)

lemma tokenize_ws: "list_all isJsonWs w \<Longrightarrow> tokenize w = Some []"
  by (induction w) auto

lemma tokenize_ws_prefix: "list_all isJsonWs w \<Longrightarrow> tokenize (w @ s) = tokenize s"
  by (induction w) auto

lemma lexString_ws: "list_all isJsonWs w \<Longrightarrow> lexString w = None"
  by (induction w) (auto simp: isJsonWs_facts)

lemma lexString_append_ws:
  assumes w: "list_all isJsonWs w"
  shows "lexString (s @ w) = map_option (\<lambda>(str, rest). (str, rest @ w)) (lexString s)"
proof (induction s rule: length_induct)
  case (1 s)
  then have IH: "\<And>t. length t < length s \<Longrightarrow>
      lexString (t @ w) = map_option (\<lambda>(str, rest). (str, rest @ w)) (lexString t)"
    by blast
  have hex: "hexVal (hd w) = None" if "w \<noteq> []"
    using w that by (cases w) (auto simp: isJsonWs_facts)
  have esc: "lexString (0x5C # w) = None"
    using w by (cases w) (auto simp: isJsonWs_facts)
  have mo: "map_option (\<lambda>(str, rest). (str, rest @ w)) (map_option (apfst ((#) x)) r)
          = map_option (apfst ((#) x)) (map_option (\<lambda>(str, rest). (str, rest @ w)) r)" for x r
    by (cases r) auto
  show ?case
  proof (cases s)
    case Nil
    with w show ?thesis by (simp add: lexString_ws)
  next
    case (Cons c cs)
    show ?thesis
    proof (cases "c = 0x22")
      case True
      with Cons show ?thesis by simp
    next
      case nq: False
      show ?thesis
      proof (cases "c = 0x5C")
        case False
        with nq Cons IH [of cs] show ?thesis by (simp add: mo)
      next
        case bs: True
        show ?thesis
        proof (cases cs)
          case Nil
          with Cons bs esc show ?thesis by simp
        next
          case cs: (Cons e es)
          show ?thesis
          proof (cases "e = 0x75")
            case False
            with nq bs Cons cs IH [of es] show ?thesis
              by (simp add: mo split: option.splits)
          next
            case u: True
            have short: "lexString (0x5C # 0x75 # es @ w) = None" if "length es < 4"
            proof -
              from that consider "es = []" | h1 where "es = [h1]" | h1 h2 where "es = [h1, h2]"
                | h1 h2 h3 where "es = [h1, h2, h3]"
                by (cases es; cases "tl es"; cases "tl (tl es)"; cases "tl (tl (tl es))") auto
              then show ?thesis
              proof cases
                case 1
                then show ?thesis using hex
                  by (cases w) (auto split: list.splits option.splits)
              next
                case 2
                then show ?thesis using hex
                  by (cases w) (auto split: list.splits option.splits)
              next
                case 3
                then show ?thesis using hex
                  by (cases w) (auto split: list.splits option.splits)
              next
                case 4
                then show ?thesis using hex
                  by (cases w) (auto split: list.splits option.splits)
              qed
            qed
            show ?thesis
            proof (cases "length es < 4")
              case True
              from True have "lexString (0x5C # 0x75 # es) = None"
                by (auto split: list.splits)
              with short [OF True] Cons cs bs u show ?thesis by simp
            next
              case False
              then obtain h1 h2 h3 h4 r where es: "es = h1 # h2 # h3 # h4 # r"
                by (cases es; cases "tl es"; cases "tl (tl es)"; cases "tl (tl (tl es))") auto
              with nq bs u Cons cs IH [of r] show ?thesis
                by (simp add: mo split: option.splits)
            qed
          qed
        qed
      qed
    qed
  qed
qed

lemma digits_append:
  assumes "w = [] \<or> \<not> isDigit (hd w)"
  shows "takeWhile isDigit (s @ w) = takeWhile isDigit s"
    and "dropWhile isDigit (s @ w) = dropWhile isDigit s @ w"
  using assms by (induction s) (auto simp: takeWhile_eq_Nil_iff dropWhile_eq_self_iff)

lemma ws_hd:
  assumes "list_all isJsonWs w"
  shows "w = [] \<or> \<not> isDigit (hd w)"
  using assms by (cases w) (auto simp: isJsonWs_facts)

lemma lexInt_append_ws:
  assumes w: "list_all isJsonWs w"
  shows "lexInt (s @ w) = map_option (\<lambda>(ds, rest). (ds, rest @ w)) (lexInt s)"
proof (cases s)
  case Nil
  with w show ?thesis by (cases w) (auto simp: lexInt_def isJsonWs_facts)
next
  case (Cons c cs)
  with digits_append [OF ws_hd [OF w], of s] show ?thesis
    by (auto simp: lexInt_def)
qed

lemma lexFrac_append_ws:
  assumes w: "list_all isJsonWs w"
  shows "lexFrac (s @ w) = map_option (\<lambda>(ds, rest). (ds, rest @ w)) (lexFrac s)"
proof (cases s)
  case Nil
  with w show ?thesis by (cases w) (auto simp: lexFrac_def isJsonWs_facts)
next
  case (Cons c cs)
  with digits_append [OF ws_hd [OF w], of cs] show ?thesis
    by (auto simp: lexFrac_def)
qed

lemma lexExp_append_ws:
  assumes w: "list_all isJsonWs w"
  shows "lexExp (s @ w) = map_option (\<lambda>(e, rest). (e, rest @ w)) (lexExp s)"
proof (cases s)
  case Nil
  with w show ?thesis by (cases w) (auto simp: lexExp_def isJsonWs_facts)
next
  case (Cons c cs)
  show ?thesis
  proof (cases "c = 0x65 \<or> c = 0x45")
    case False
    with Cons show ?thesis by (simp add: lexExp_def)
  next
    case True
    show ?thesis
    proof (cases cs)
      case Nil
      with Cons True w show ?thesis
        by (cases w) (auto simp: lexExp_def isJsonWs_facts)
    next
      case cs: (Cons d r)
      with Cons True digits_append [OF ws_hd [OF w], of r] digits_append [OF ws_hd [OF w], of cs]
      show ?thesis
        by (auto simp: lexExp_def Let_def)
    qed
  qed
qed

lemma lexNumber_append_ws:
  assumes w: "list_all isJsonWs w"
  shows "lexNumber (s @ w) = map_option (\<lambda>(q, rest). (q, rest @ w)) (lexNumber s)"
proof -
  have body: "(case lexInt (s1 @ w) of
           None \<Rightarrow> None
         | Some (ip, s2) \<Rightarrow>
             (case lexFrac s2 of
                None \<Rightarrow> None
              | Some (fp, s3) \<Rightarrow>
                  (case lexExp s3 of
                     None \<Rightarrow> None
                   | Some (e, s4) \<Rightarrow> Some (f ip fp e, s4))))
     = map_option (\<lambda>(q, rest). (q, rest @ w))
        (case lexInt s1 of
           None \<Rightarrow> None
         | Some (ip, s2) \<Rightarrow>
             (case lexFrac s2 of
                None \<Rightarrow> None
              | Some (fp, s3) \<Rightarrow>
                  (case lexExp s3 of
                     None \<Rightarrow> None
                   | Some (e, s4) \<Rightarrow> Some (f ip fp e, s4))))" for s1 and f :: "jsstring \<Rightarrow> jsstring \<Rightarrow> int \<Rightarrow> rat"
    by (auto simp: lexInt_append_ws [OF w] lexFrac_append_ws [OF w] lexExp_append_ws [OF w]
        split: option.splits)
  show ?thesis
  proof (cases s)
    case Nil
    with w have "lexInt w = None" by (cases w) (auto simp: lexInt_def isJsonWs_facts)
    with Nil w show ?thesis
      by (cases w) (auto simp: lexNumber_def isJsonWs_facts lexInt_def)
  next
    case (Cons c cs)
    show ?thesis
    proof (cases "c = 0x2D")
      case True
      with Cons body [where ?s1.0 = cs] show ?thesis by (simp add: lexNumber_def)
    next
      case False
      with Cons body [where ?s1.0 = "c # cs"] show ?thesis by (simp add: lexNumber_def)
    qed
  qed
qed

lemma startsWith_append_ws:
  assumes "list_all isJsonWs w" and "\<forall>x \<in> set p. \<not> isJsonWs x"
  shows "startsWith (s @ w) p = startsWith s p"
  using assms
proof (induction s p rule: startsWith.induct)
  case (1 s)
  show ?case by simp
next
  case (2 p ps)
  then show ?case by (cases w) auto
next
  case (3 c cs p ps)
  then show ?case by simp
qed

lemma literal_no_ws:
  "\<forall>x \<in> set (js ''true''). \<not> isJsonWs x"
  "\<forall>x \<in> set (js ''false''). \<not> isJsonWs x"
  "\<forall>x \<in> set (js ''null''). \<not> isJsonWs x"
  by (simp_all add: js_def isJsonWs_def)

lemma startsWith_drop: "startsWith s p \<Longrightarrow> drop (length p) (s @ w) = drop (length p) s @ w"
  by (induction s p rule: startsWith.induct) auto

lemma tokenize_append_ws:
  assumes w: "list_all isJsonWs w"
  shows "tokenize (s @ w) = tokenize s"
proof (induction s rule: length_induct)
  case (1 s)
  then have IH: "\<And>t. length t < length s \<Longrightarrow> tokenize (t @ w) = tokenize t"
    by blast
  show ?case
  proof (cases s)
    case Nil
    with w show ?thesis by (simp add: tokenize_ws)
  next
    case (Cons c cs)
    have sw: "startsWith (c # cs @ w) (js lit) = startsWith (c # cs) (js lit)"
      if "\<forall>x \<in> set (js lit). \<not> isJsonWs x" for lit
      using startsWith_append_ws [OF w that, of "c # cs"] by simp
    have str: "(case lexString (cs @ w) of
           None \<Rightarrow> None
         | Some (str, rest) \<Rightarrow> map_option ((#) (TString str)) (tokenize rest))
       = (case lexString cs of
           None \<Rightarrow> None
         | Some (str, rest) \<Rightarrow> map_option ((#) (TString str)) (tokenize rest))"
    proof (cases "lexString cs")
      case None
      then show ?thesis by (simp add: lexString_append_ws [OF w])
    next
      case (Some a)
      obtain st rest where a: "a = (st, rest)" by (cases a)
      from lexString_length [of cs st rest] Some a have "length rest < length s"
        using Cons by simp
      from IH [OF this] Some a show ?thesis by (simp add: lexString_append_ws [OF w])
    qed
    have ln: "lexNumber (c # cs @ w) = map_option (\<lambda>(q, rest). (q, rest @ w)) (lexNumber (c # cs))"
      using lexNumber_append_ws [OF w, of "c # cs"] by simp
    have num: "(case lexNumber (c # cs @ w) of
           None \<Rightarrow> None
         | Some (q, rest) \<Rightarrow> map_option ((#) (TNumber q)) (tokenize rest))
       = (case lexNumber (c # cs) of
           None \<Rightarrow> None
         | Some (q, rest) \<Rightarrow> map_option ((#) (TNumber q)) (tokenize rest))"
    proof (cases "lexNumber (c # cs)")
      case None
      then show ?thesis by (simp add: ln)
    next
      case (Some a)
      obtain q rest where a: "a = (q, rest)" by (cases a)
      from lexNumber_length [of "c # cs" q rest] Some a have "length rest < length s"
        using Cons by simp
      from IH [OF this] Some a show ?thesis by (simp add: ln)
    qed
    have lit: "tokenize (drop n cs @ w) = tokenize (drop n cs)" for n
      using IH [of "drop n cs"] Cons by simp
    have l1: "startsWith (c # cs) (js ''true'') \<Longrightarrow> 3 - length cs = 0"
      and l2: "startsWith (c # cs) (js ''false'') \<Longrightarrow> 4 - length cs = 0"
      and l3: "startsWith (c # cs) (js ''null'') \<Longrightarrow> 3 - length cs = 0"
      using startsWith_length [of "c # cs" "js ''true''"] startsWith_length [of "c # cs" "js ''false''"]
        startsWith_length [of "c # cs" "js ''null''"]
      by (simp_all add: js_def)
    from IH [of cs] Cons have tl: "tokenize (cs @ w) = tokenize cs" by simp
    have "tokenize (c # cs @ w) = tokenize (c # cs)"
      apply (simp only: tokenize.simps tl sw [OF literal_no_ws(1)] sw [OF literal_no_ws(2)]
          sw [OF literal_no_ws(3)] str num)
      apply (auto simp: l1 l2 l3 lit)
      done
    with Cons show ?thesis by simp
  qed
qed

lemma JSON_parse_append_ws: "list_all isJsonWs w \<Longrightarrow> JSON_parse (s @ w) = JSON_parse s"
  by (simp add: JSON_parse_def tokenize_append_ws)

lemma JSON_parse_ws_prefix: "list_all isJsonWs w \<Longrightarrow> JSON_parse (w @ s) = JSON_parse s"
  by (simp add: JSON_parse_def tokenize_ws_prefix)

section \<open>Properties of \<open>parseJsonWithRetry\<close>\<close>


lemma parseLoop_parsed:
  "int attempt \<le> maxRetries \<Longrightarrow> JSON_parse raw = Some v \<Longrightarrow>
     parseLoop openai errString originalMessages maxRetries attempt raw w = (Inr v, w)"
  by (simp add: parseLoop.simps)













subsection \<open>Valid JSON in a wrapping\<close>

lemma canonicalize_backtick: "canonicalize c = 0x60 \<longleftrightarrow> c = 0x60"
  unfolding canonicalize_def by (auto; unat_arith)

lemma canonicalize_consts [simp]:
  "canonicalize 0x60 = 0x60" "canonicalize 0x6A = 0x4A" "canonicalize 0x73 = 0x53"
  "canonicalize 0x6F = 0x4F" "canonicalize 0x6E = 0x4E"
  by (simp_all add: canonicalize_def)

lemma canonicalize_paren_space: "isParenOrSpace c \<Longrightarrow> canonicalize c = c"
  by (auto simp: isParenOrSpace_def isWhiteSpace_def canonicalize_def word_le_nat_alt)

lemma paren_space_not_backtick: "isParenOrSpace c \<Longrightarrow> c \<noteq> 0x60 \<and> c \<noteq> 0x4A"
  by (auto simp: isParenOrSpace_def isWhiteSpace_def)

lemma removeAll_no_match:
  assumes "\<And>a1 a2. a = a1 @ a2 \<Longrightarrow> a2 \<noteq> [] \<Longrightarrow> \<not> m (a2 @ b) p"
  shows "removeAll m p (a @ b) = a @ removeAll m p b"
  using assms
proof (induction a)
  case Nil
  show ?case by simp
next
  case (Cons c cs)
  from Cons.prems [of "[]" "c # cs"] have "\<not> m (c # cs @ b) p" by simp
  moreover have "removeAll m p (cs @ b) = cs @ removeAll m p b"
  proof (rule Cons.IH)
    fix a1 a2
    assume "cs = a1 @ a2" "a2 \<noteq> []"
    with Cons.prems [of "c # a1" a2] show "\<not> m (a2 @ b) p" by simp
  qed
  ultimately show ?case by simp
qed

lemma startsWithIgnoreCase_fence:
  "startsWithIgnoreCase s (js ''```json'') \<Longrightarrow> startsWith s (js ''```'')"
  by (cases s; cases "tl s"; cases "tl (tl s)") (auto simp: js_def canonicalize_backtick)

lemma startsWith_append_cases:
  "startsWith (a @ b) p \<Longrightarrow> startsWith a p \<or> (length a < length p \<and> a = take (length a) p)"
proof (induction a p rule: startsWith.induct)
  case (1 s)
  show ?case by simp
next
  case (2 p ps)
  show ?case by simp
next
  case (3 c cs p ps)
  then show ?case by auto
qed

lemma startsWith_Nil: "startsWith [] p \<longleftrightarrow> p = []"
  by (cases p) auto

lemma includes_str_suffix:
  "\<not> includes_str (x @ s) p \<Longrightarrow> \<not> startsWith s p"
proof (induction x)
  case Nil
  then show ?case by (cases s) (auto simp: includes_str_def startsWith_Nil split: if_splits)
next
  case (Cons c cs)
  then show ?case by (auto simp: includes_str_def split: if_splits)
qed

text \<open>No fence begins inside a text that has no triple backtick and does not end with a backtick.\<close>

lemma no_fence_inside:
  assumes "\<not> includes_str j (js ''```'')" and "j \<noteq> []" and "last j \<noteq> 0x60"
    and "j = a1 @ a2" and "a2 \<noteq> []"
  shows "\<not> startsWith (a2 @ b) (js ''```'')"
proof
  assume "startsWith (a2 @ b) (js ''```'')"
  from startsWith_append_cases [OF this]
  show False
  proof
    assume "startsWith a2 (js ''```'')"
    with includes_str_suffix [of a1 a2 "js ''```''"] assms(1,4) show False by simp
  next
    assume "length a2 < length (js ''```'') \<and> a2 = take (length a2) (js ''```'')"
    then have l: "length a2 < 3" and t: "a2 = take (length a2) (js ''```'')"
      by (simp_all add: js_def)
    from l assms(5) consider "length a2 = 1" | "length a2 = 2"
      by (cases a2) (auto simp: less_Suc_eq numeral_3_eq_3)
    then have "last a2 = 0x60"
    proof cases
      case 1
      with t have "a2 = [0x60]" by (simp add: js_def)
      then show ?thesis by simp
    next
      case 2
      with t have "a2 = [0x60, 0x60]" by (simp add: js_def numeral_2_eq_2)
      then show ?thesis by simp
    qed
    with assms(3,4,5) show False by simp
  qed
qed


lemma canonicalize_J: "canonicalize c = 0x4A \<longleftrightarrow> c = 0x4A \<or> c = 0x6A"
  unfolding canonicalize_def by (auto; unat_arith)

lemma token_start_head:
  assumes "isJsonWs c \<or> isTokenStart c"
  shows "canonicalize c \<noteq> 0x4A" "c \<noteq> 0x60" "\<not> isJsonWs c \<Longrightarrow> \<not> isParenOrSpace c"
  using assms
  by (auto simp: canonicalize_J isJsonWs_def isTokenStart_def isDigit_def isParenOrSpace_def
      isWhiteSpace_def word_le_nat_alt)

lemma token_end_last:
  assumes "isJsonWs c \<or> isTokenEnd c"
  shows "c \<noteq> 0x60" "\<not> isJsonWs c \<Longrightarrow> \<not> isParenOrSpace c"
  using assms
  by (auto simp: isJsonWs_def isTokenEnd_def isDigit_def isParenOrSpace_def
      isWhiteSpace_def word_le_nat_alt)

lemma isJsonWs_isParenOrSpace: "isJsonWs c \<Longrightarrow> isParenOrSpace c \<and> isWhiteSpace c"
  by (auto simp: isJsonWs_def isParenOrSpace_def isWhiteSpace_def)

lemma headOK_wrapping:
  assumes "wrapping s" and "headOK rest"
  shows "headOK (s @ rest)"
  using assms
proof (cases rule: wrapping.cases)
  case wrapping_Nil
  with assms(2) show ?thesis by simp
next
  case (wrapping_char c s')
  then show ?thesis
    using paren_space_not_backtick [of c] canonicalize_paren_space [of c]
    by (simp add: headOK_def)
next
  case (wrapping_fence s')
  then show ?thesis by (simp add: headOK_def js_def)
next
  case (wrapping_fence_json t s')
  then show ?thesis by (simp add: headOK_def js_def)
qed

lemma pass1_fence:
  assumes "headOK y"
  shows "removeAll startsWithIgnoreCase (js ''```json'') (js ''```'' @ y)
           = js ''```'' @ removeAll startsWithIgnoreCase (js ''```json'') y"
proof (rule removeAll_no_match)
  fix a1 a2 :: jsstring
  assume a: "js ''```'' = a1 @ a2" and ne: "a2 \<noteq> []"
  then have "a2 = [0x60] \<or> a2 = [0x60, 0x60] \<or> a2 = [0x60, 0x60, 0x60]"
    by (cases a1; cases "tl a1"; cases "tl (tl a1)"; cases "tl (tl (tl a1))") (auto simp: js_def)
  then show "\<not> startsWithIgnoreCase (a2 @ y) (js ''```json'')"
  proof (elim disjE)
    assume a2: "a2 = [0x60, 0x60, 0x60]"
    show ?thesis
    proof
      assume "startsWithIgnoreCase (a2 @ y) (js ''```json'')"
      with a2 have "y \<noteq> [] \<and> canonicalize (hd y) = 0x4A"
        by (cases y) (auto simp: js_def)
      with assms show False by (simp add: headOK_def)
    qed
  next
    assume a2: "a2 = [0x60, 0x60]"
    show ?thesis
    proof
      assume "startsWithIgnoreCase (a2 @ y) (js ''```json'')"
      with a2 obtain y1 y2 r where y: "y = y1 # y2 # r" "y1 = 0x60" "canonicalize y2 = 0x4A"
        by (cases y; cases "tl y") (auto simp: js_def canonicalize_backtick)
      with assms have "y2 = 0x60" by (simp add: headOK_def js_def)
      with y(3) show False by simp
    qed
  next
    assume a2: "a2 = [0x60]"
    show ?thesis
    proof
      assume "startsWithIgnoreCase (a2 @ y) (js ''```json'')"
      with a2 obtain y1 y2 y3 r where y: "y = y1 # y2 # y3 # r" "y1 = 0x60" "canonicalize y3 = 0x4A"
        by (cases y; cases "tl y"; cases "tl (tl y)") (auto simp: js_def canonicalize_backtick)
      with assms have "y3 = 0x60" by (simp add: headOK_def js_def)
      with y(3) show False by simp
    qed
  qed
qed

lemma cleanPrefixE:
  assumes "cleanPrefix p"
  obtains q where "list_all isParenOrSpace q"
    and "\<And>z. removeAll startsWith (js ''```'') (p @ z) = q @ removeAll startsWith (js ''```'') z"
proof -
  from assms have "\<exists>q. list_all isParenOrSpace q
      \<and> (\<forall>z. removeAll startsWith (js ''```'') (p @ z) = q @ removeAll startsWith (js ''```'') z)"
    by (simp only: cleanPrefix_def)
  then obtain q where "list_all isParenOrSpace q"
    and "\<forall>z. removeAll startsWith (js ''```'') (p @ z) = q @ removeAll startsWith (js ''```'') z"
    by (elim exE conjE)
  with that show thesis by simp
qed

lemma cleanPrefix_Nil: "cleanPrefix []"
  unfolding cleanPrefix_def by (intro exI [of _ "[]"]) simp

lemma cleanPrefix_char: "isParenOrSpace c \<Longrightarrow> cleanPrefix p \<Longrightarrow> cleanPrefix (c # p)"
proof -
  assume c: "isParenOrSpace c" and "cleanPrefix p"
  then obtain q where q: "list_all isParenOrSpace q"
    "\<And>z. removeAll startsWith (js ''```'') (p @ z) = q @ removeAll startsWith (js ''```'') z"
    unfolding cleanPrefix_def by blast
  from c have "\<not> startsWith (c # p @ z) (js ''```'')" for z
    using paren_space_not_backtick [of c] by (simp add: js_def)
  then have "removeAll startsWith (js ''```'') ((c # p) @ z) = (c # q) @ removeAll startsWith (js ''```'') z" for z
    by (simp add: q(2))
  with c q(1) show ?thesis
    unfolding cleanPrefix_def by (intro exI [of _ "c # q"]) simp
qed

lemma cleanPrefix_fence: "cleanPrefix p \<Longrightarrow> cleanPrefix (js ''```'' @ p)"
proof -
  assume "cleanPrefix p"
  then obtain q where q: "list_all isParenOrSpace q"
    "\<And>z. removeAll startsWith (js ''```'') (p @ z) = q @ removeAll startsWith (js ''```'') z"
    unfolding cleanPrefix_def by blast
  have "removeAll startsWith (js ''```'') ((js ''```'' @ p) @ z) = q @ removeAll startsWith (js ''```'') z" for z
    by (simp add: js_def q(2) [unfolded js_def, simplified])
  with q(1) show ?thesis
    unfolding cleanPrefix_def by blast
qed

lemma pass1_wrapping:
  assumes "wrapping pre" and "headOK rest"
  shows "\<exists>pre1. cleanPrefix pre1
           \<and> removeAll startsWithIgnoreCase (js ''```json'') (pre @ rest)
               = pre1 @ removeAll startsWithIgnoreCase (js ''```json'') rest"
  using assms
proof (induction pre rule: wrapping.induct)
  case wrapping_Nil
  show ?case using cleanPrefix_Nil by (intro exI [of _ "[]"]) simp
next
  case (wrapping_char c s)
  from wrapping_char.IH [OF wrapping_char.prems] obtain pre1 where p: "cleanPrefix pre1"
    "removeAll startsWithIgnoreCase (js ''```json'') (s @ rest)
       = pre1 @ removeAll startsWithIgnoreCase (js ''```json'') rest"
    by blast
  from wrapping_char.hyps(1) have "\<not> startsWithIgnoreCase (c # s @ rest) (js ''```json'')"
    using paren_space_not_backtick [of c] by (simp add: js_def canonicalize_backtick)
  then have "removeAll startsWithIgnoreCase (js ''```json'') ((c # s) @ rest)
       = (c # pre1) @ removeAll startsWithIgnoreCase (js ''```json'') rest"
    by (simp add: p(2))
  with cleanPrefix_char [OF wrapping_char.hyps(1) p(1)] show ?case by blast
next
  case (wrapping_fence s)
  from wrapping_fence.IH [OF wrapping_fence.prems] obtain pre1 where p: "cleanPrefix pre1"
    "removeAll startsWithIgnoreCase (js ''```json'') (s @ rest)
       = pre1 @ removeAll startsWithIgnoreCase (js ''```json'') rest"
    by blast
  from pass1_fence [OF headOK_wrapping [OF wrapping_fence.hyps wrapping_fence.prems]] p(2)
  have "removeAll startsWithIgnoreCase (js ''```json'') ((js ''```'' @ s) @ rest)
       = (js ''```'' @ pre1) @ removeAll startsWithIgnoreCase (js ''```json'') rest"
    by simp
  with cleanPrefix_fence [OF p(1)] show ?case by blast
next
  case (wrapping_fence_json t s)
  from wrapping_fence_json.IH [OF wrapping_fence_json.prems] obtain pre1 where p: "cleanPrefix pre1"
    "removeAll startsWithIgnoreCase (js ''```json'') (s @ rest)
       = pre1 @ removeAll startsWithIgnoreCase (js ''```json'') rest"
    by blast
  from wrapping_fence_json.hyps(1) obtain t1 t2 t3 t4 where t: "t = [t1, t2, t3, t4]"
    "canonicalize t1 = 0x4A" "canonicalize t2 = 0x53" "canonicalize t3 = 0x4F" "canonicalize t4 = 0x4E"
    by (cases t; cases "tl t"; cases "tl (tl t)"; cases "tl (tl (tl t))"; cases "tl (tl (tl (tl t)))")
      (auto simp: js_def)
  then have "removeAll startsWithIgnoreCase (js ''```json'') ((js ''```'' @ t @ s) @ rest)
       = removeAll startsWithIgnoreCase (js ''```json'') (s @ rest)"
    by (simp add: js_def)
  with p show ?case by auto
qed

lemma strip_core:
  assumes "list_all P w1" and "list_all P w2" and "x \<noteq> []" and "\<not> P (hd x)" and "\<not> P (last x)"
  shows "dropWhileEnd P (dropWhile P (w1 @ x @ w2)) = x"
proof -
  from assms(1) have "dropWhile P (w1 @ x @ w2) = dropWhile P (x @ w2)"
    by (simp add: dropWhile_append2 list_all_iff)
  also from assms(3,4) have "\<dots> = x @ w2"
    by (cases x) auto
  finally have "dropWhileEnd P (dropWhile P (w1 @ x @ w2)) = rev (dropWhile P (rev w2 @ rev x))"
    by (simp add: dropWhileEnd_def)
  also from assms(2) have "\<dots> = rev (dropWhile P (rev x))"
    by (subst dropWhile_append2) (simp_all add: list_all_iff)
  also from assms(3,5) have "dropWhile P (rev x) = rev x"
    by (cases "rev x") (auto simp: last_rev [symmetric] simp del: last_rev)
  finally show ?thesis by simp
qed


lemma token_not_paren_space:
  "isTokenStart c \<Longrightarrow> \<not> isParenOrSpace c"
  "isTokenEnd c \<Longrightarrow> \<not> isParenOrSpace c"
  by (auto simp: isTokenStart_def isTokenEnd_def isDigit_def isParenOrSpace_def
      isWhiteSpace_def word_le_nat_alt)

lemma JSON_parse_tokenize: "JSON_parse s = Some v \<Longrightarrow> s \<noteq> [] \<and> (\<exists>ts. tokenize s = Some ts)"
proof -
  assume a: "JSON_parse s = Some v"
  have "JSON_parse [] = None" by (simp add: JSON_parse_def)
  with a have "s \<noteq> []" by auto
  moreover from a have "\<exists>ts. tokenize s = Some ts"
    by (cases "tokenize s") (simp_all add: JSON_parse_def)
  ultimately show ?thesis ..
qed

lemma json_core:
  assumes "JSON_parse j = Some v"
  obtains w1 x w2 where "j = w1 @ x @ w2" "list_all isJsonWs w1" "list_all isJsonWs w2" "x \<noteq> []"
    "isTokenStart (hd x)" "isTokenEnd (last x)" "JSON_parse x = Some v"
    "x = dropWhileEnd isJsonWs (dropWhile isJsonWs j)"
proof -
  define w1 where "w1 = takeWhile isJsonWs j"
  define d where "d = dropWhile isJsonWs j"
  define w2 where "w2 = rev (takeWhile isJsonWs (rev d))"
  define x where "x = rev (dropWhile isJsonWs (rev d))"
  have j: "j = w1 @ d" by (simp add: w1_def d_def)
  have "x @ w2 = rev (takeWhile isJsonWs (rev d) @ dropWhile isJsonWs (rev d))"
    by (simp only: x_def w2_def rev_append)
  also have "\<dots> = rev (rev d)"
    by (simp only: takeWhile_dropWhile_id)
  finally have d: "d = x @ w2" by simp
  have a1: "list_all isJsonWs w1"
    by (auto simp: w1_def list_all_iff dest: set_takeWhileD)
  have a2: "list_all isJsonWs w2"
    by (auto simp: w2_def list_all_iff dest: set_takeWhileD)
  from assms j d have p: "JSON_parse x = Some v"
    by (simp add: JSON_parse_ws_prefix [OF a1] JSON_parse_append_ws [OF a2])
  from JSON_parse_tokenize [OF p] obtain ts where ne: "x \<noteq> []" and t: "tokenize x = Some ts"
    by blast
  from ne d have "d \<noteq> []" "hd d = hd x" by simp_all
  with hd_dropWhile [of isJsonWs j] have nh: "\<not> isJsonWs (hd x)" by (simp add: d_def)
  from ne have "dropWhile isJsonWs (rev d) \<noteq> []" by (simp add: x_def)
  from hd_dropWhile [OF this] have nl: "\<not> isJsonWs (last x)"
    using ne by (simp add: x_def last_rev)
  from tokenize_first [OF t ne] nh have s: "isTokenStart (hd x)" by simp
  from tokenize_last [OF t ne] nl have e: "isTokenEnd (last x)" by simp
  have c: "x = dropWhileEnd isJsonWs (dropWhile isJsonWs j)"
    by (simp add: x_def d_def dropWhileEnd_def)
  from j d have "j = w1 @ x @ w2" by simp
  from this a1 a2 ne s e p c show thesis by (rule that)
qed

text \<open>
  C2 (as amended). For every valid JSON text that contains no triple backtick, wrapped
  on both sides in code fences, parentheses and white space (or in nothing), and every
  budget \<open>maxRetries \<ge> 0\<close>: the sanitized text is the JSON text without the white space
  around it, and \<open>parseJsonWithRetry\<close> returns its parsed value on the first attempt,
  with no repair call and no other effect.
\<close>

theorem parseJsonWithRetry_wrapped:
  assumes valid: "JSON_parse j = Some v"
    and nofence: "\<not> includes_str j (js ''```'')"
    and pre: "wrapping pre" and suf: "wrapping suf"
    and budget: "0 \<le> maxRetries"
  shows "sanitizePotentialFormatting (pre @ j @ suf) = dropWhileEnd isJsonWs (dropWhile isJsonWs j)
    \<and> parseJsonWithRetry openai errString originalMessages (pre @ j @ suf) maxRetries w = (Inr v, w)"
proof -
  let ?p1 = "removeAll startsWithIgnoreCase (js ''```json'')"
  let ?p2 = "removeAll startsWith (js ''```'')"
  from json_core [OF valid] obtain w1 x w2 where
    j: "j = w1 @ x @ w2" and w1: "list_all isJsonWs w1" and w2: "list_all isJsonWs w2"
    and x: "x \<noteq> []" "isTokenStart (hd x)" "isTokenEnd (last x)" "JSON_parse x = Some v"
      "x = dropWhileEnd isJsonWs (dropWhile isJsonWs j)"
    by blast
  from JSON_parse_tokenize [OF valid] obtain ts where jne: "j \<noteq> []" and t: "tokenize j = Some ts"
    by blast
  from tokenize_first [OF t jne] have hd: "canonicalize (hd j) \<noteq> 0x4A" "hd j \<noteq> 0x60"
    using token_start_head by blast+
  from tokenize_last [OF t jne] have last: "last j \<noteq> 0x60"
    using token_end_last by blast
  from jne hd have hok: "headOK (j @ suf)" by (simp add: headOK_def)
  from pass1_wrapping [OF pre hok] obtain pre1 where pre1: "cleanPrefix pre1"
    "?p1 (pre @ j @ suf) = pre1 @ ?p1 (j @ suf)"
    by (elim exE conjE)
  have nf: "\<not> startsWith (a2 @ b) (js ''```'')" if "j = a1 @ a2" "a2 \<noteq> []" for a1 a2 b
    using no_fence_inside [OF nofence jne last that] .
  have j1: "?p1 (j @ suf) = j @ ?p1 suf"
  proof (rule removeAll_no_match)
    fix a1 a2 :: jsstring
    assume "j = a1 @ a2" "a2 \<noteq> []"
    from nf [OF this, of suf] show "\<not> startsWithIgnoreCase (a2 @ suf) (js ''```json'')"
      using startsWithIgnoreCase_fence [of "a2 @ suf"] by blast
  qed
  have "headOK []" by (simp add: headOK_def)
  from pass1_wrapping [OF suf this] obtain suf1 where suf1: "cleanPrefix suf1" "?p1 suf = suf1"
    by (elim exE conjE) simp
  from pre1(1) obtain q1 where q1: "list_all isParenOrSpace q1" "\<And>z. ?p2 (pre1 @ z) = q1 @ ?p2 z"
    by (rule cleanPrefixE) (rule that, assumption+)
  from suf1(1) obtain q2 where q2: "list_all isParenOrSpace q2" "\<And>z. ?p2 (suf1 @ z) = q2 @ ?p2 z"
    by (rule cleanPrefixE) (rule that, assumption+)
  have j2: "?p2 (j @ suf1) = j @ ?p2 suf1"
  proof (rule removeAll_no_match)
    fix a1 a2 :: jsstring
    assume "j = a1 @ a2" "a2 \<noteq> []"
    from nf [OF this, of suf1] show "\<not> startsWith (a2 @ suf1) (js ''```'')" .
  qed
  from q2(2) [of "[]"] have s2: "?p2 suf1 = q2" by simp
  have "?p2 (?p1 (pre @ j @ suf)) = ?p2 (pre1 @ j @ suf1)"
    by (simp only: pre1(2) j1 suf1(2))
  also have "\<dots> = q1 @ j @ q2"
    by (simp only: q1(2) j2 s2)
  finally have cleaned: "?p2 (?p1 (pre @ j @ suf)) = (q1 @ w1) @ x @ (w2 @ q2)"
    by (simp add: j)
  from w1 w2 q1(1) q2(1) have ps: "list_all isParenOrSpace (q1 @ w1)" "list_all isParenOrSpace (w2 @ q2)"
    by (auto simp: list_all_iff isJsonWs_isParenOrSpace)
  from x(2,3) have np: "\<not> isParenOrSpace (hd x)" "\<not> isParenOrSpace (last x)"
    by (simp_all add: token_not_paren_space)
  then have nw: "\<not> isWhiteSpace (hd x)" "\<not> isWhiteSpace (last x)"
    by (simp_all add: isParenOrSpace_def)
  from strip_core [OF ps x(1) np]
  have "dropWhileEnd isParenOrSpace (dropWhile isParenOrSpace (?p2 (?p1 (pre @ j @ suf)))) = x"
    by (simp only: cleaned)
  moreover from strip_core [of isWhiteSpace "[]" "[]" x, OF _ _ x(1) nw] have "trim x = x"
    by (simp add: trim_def)
  ultimately have s: "sanitizePotentialFormatting (pre @ j @ suf) = x"
    by (simp add: sanitizePotentialFormatting_def Let_def)
  from budget x(4) have "parseLoop openai errString originalMessages maxRetries 0 x w = (Inr v, w)"
    by (simp add: parseLoop_parsed)
  with s x(5) show ?thesis by (simp add: parseJsonWithRetry_def)
qed

lemma wrapped_examples:
  \<open>JSON_parse (js ''{"tasks":[]}'') = Some (JObject [(js ''tasks'', JArray [])])\<close>
  \<open>\<not> includes_str (js ''{"tasks":[]}'') (js ''```'')\<close>
  by code_simp+

theorem parseJsonWithRetry_wrapped_witness:
  \<open>JSON_parse (js ''{"tasks":[]}'') = Some (JObject [(js ''tasks'', JArray [])])
   \<and> \<not> includes_str (js ''{"tasks":[]}'') (js ''```'')
   \<and> wrapping (js ''```json\<newline>'') \<and> wrapping (js ''\<newline>```'')
   \<and> fencedReply = js ''```json\<newline>'' @ js ''{"tasks":[]}'' @ js ''\<newline>```''
   \<and> parseJsonWithRetry (fixedClient (Inr None)) plainErrString [] fencedReply 2 emptyWorld
       = (Inr (JObject [(js ''tasks'', JArray [])]), emptyWorld)
   \<and> parseJsonWithRetry (fixedClient (Inr None)) plainErrString [] (js ''{"tasks":[]}'') 2 emptyWorld
       = (Inr (JObject [(js ''tasks'', JArray [])]), emptyWorld)\<close>
proof -
  have nl: "wrapping [0x0A]"
    by (rule wrapping_char) (simp_all add: isParenOrSpace_def isWhiteSpace_def wrapping_Nil)
  have "wrapping (js ''```'' @ js ''json'' @ [0x0A])"
    by (rule wrapping_fence_json) (simp_all add: js_def nl)
  then have p: "wrapping (js ''```json\<newline>'')" by (simp add: js_def)
  have "wrapping (0x0A # js ''```'' @ [])"
    by (intro wrapping_char wrapping_fence wrapping_Nil) (simp add: isParenOrSpace_def isWhiteSpace_def)
  then have s: "wrapping (js ''\<newline>```'')" by (simp add: js_def)
  have f: \<open>fencedReply = js ''```json\<newline>'' @ js ''{"tasks":[]}'' @ js ''\<newline>```''\<close>
    by (simp add: fencedReply_def js_def)
  from parseJsonWithRetry_wrapped [OF wrapped_examples p s, of 2 "fixedClient (Inr None)" plainErrString "[]" emptyWorld]
    parseJsonWithRetry_wrapped [OF wrapped_examples wrapping_Nil wrapping_Nil, of 2 "fixedClient (Inr None)" plainErrString "[]" emptyWorld]
    wrapped_examples p s f
  show ?thesis by simp
qed

lemma backtickJson_eval:
  \<open>JSON_parse backtickJson = Some (JObject [(js ''basis'', JString (js ''```''))])\<close>
  \<open>JSON_parse (sanitizePotentialFormatting backtickJson) = Some (JObject [(js ''basis'', JString [])])\<close>
  by code_simp+

text \<open>
  A valid JSON text with a triple backtick inside a string is parsed without a repair
  call, but the value returned is not its value: the backticks are gone.
\<close>

theorem parseJsonWithRetry_backticks_counterexample:
  \<open>JSON_parse backtickJson = Some (JObject [(js ''basis'', JString (js ''```''))])
   \<and> parseJsonWithRetry (fixedClient (Inr None)) plainErrString [] backtickJson 2 emptyWorld
       = (Inr (JObject [(js ''basis'', JString [])]), emptyWorld)
   \<and> JObject [(js ''basis'', JString [])] \<noteq> JObject [(js ''basis'', JString (js ''```''))]\<close>
  by (simp add: backtickJson_eval parseJsonWithRetry_def parseLoop_parsed) (simp add: js_def)


end
